theory Spec2Isabelle
  imports Complex_Main "HOL-Library.Word"
begin

unbundle bit_operations_syntax

section \<open>Text, bytes and number formatting\<close>

text \<open>
  Python text is modelled as \<open>string\<close>: a list of characters with code points 0 to 255
  (Latin-1), so \<open>length\<close> counts characters as Python's \<open>len\<close> does. Bytes are
  8-bit words. \<open>utf8_encode\<close> is \<open>str.encode("utf-8")\<close> on that range: one byte below
  128, two bytes from 128 to 255.
\<close>

type_synonym byte = "8 word"

definition utf8_char :: "char \<Rightarrow> byte list" where
  "utf8_char c =
     (let n = (of_char c :: nat)
      in if n < 128 then [of_nat n]
         else [of_nat (192 + n div 64), of_nat (128 + n mod 64)])"

definition utf8_encode :: "string \<Rightarrow> byte list" where
  "utf8_encode s = concat (map utf8_char s)"

definition digit_char :: "nat \<Rightarrow> char" where
  "digit_char d = char_of (48 + d)"

definition hex_char :: "nat \<Rightarrow> char" where
  "hex_char d = (if d < 10 then char_of (48 + d) else char_of (55 + d))"

text \<open>\<open>str(n)\<close> for a non-negative integer.\<close>

fun digits10 :: "nat \<Rightarrow> string" where
  "digits10 n = (if n < 10 then [digit_char n] else digits10 (n div 10) @ [digit_char (n mod 10)])"

declare digits10.simps [simp del]

text \<open>The digits of format type \<open>X\<close> (upper-case hexadecimal) for a non-negative integer.\<close>

fun digits16 :: "nat \<Rightarrow> string" where
  "digits16 n = (if n < 16 then [hex_char n] else digits16 (n div 16) @ [hex_char (n mod 16)])"

declare digits16.simps [simp del]

text \<open>Zero padding on the left up to a minimum width; longer text is left as it is.\<close>

definition zfill :: "nat \<Rightarrow> string \<Rightarrow> string" where
  "zfill w s = replicate (w - length s) (CHR ''0'') @ s"

text \<open>The format specifications \<open>02d\<close> (of a length) and \<open>04X\<close> (of an integer).\<close>

definition fmt_02d :: "nat \<Rightarrow> string" where
  "fmt_02d n = zfill 2 (digits10 n)"

definition fmt_04X :: "int \<Rightarrow> string" where
  "fmt_04X n =
     (if n < 0 then CHR ''-'' # zfill 3 (digits16 (nat (- n)))
      else zfill 4 (digits16 (nat n)))"

section \<open>PIX (EMV/BR Code)\<close>

text \<open>\<open>_emv_kv\<close>: \<^verbatim>\<open>f"{_id}{len(value):02d}{value}"\<close>. There is no check of the length.\<close>

definition emv_kv :: "string \<Rightarrow> string \<Rightarrow> string" where
  "emv_kv ident val = ident @ fmt_02d (length val) @ val"

text \<open>
  \<open>_crc16_ccitt\<close>. The register is a Python integer, masked to 16 bits at the end of each
  of the eight steps of a byte.
\<close>

definition crc_step :: "int \<Rightarrow> int" where
  "crc_step crc =
     (let crc' = (if crc AND 0x8000 \<noteq> 0 then push_bit 1 crc XOR 0x1021 else push_bit 1 crc)
      in crc' AND 0xFFFF)"

definition crc_byte :: "int \<Rightarrow> byte \<Rightarrow> int" where
  "crc_byte crc b = (crc_step ^^ 8) (crc XOR push_bit 8 (uint b))"

definition crc16_ccitt :: "byte list \<Rightarrow> int" where
  "crc16_ccitt data = foldl crc_byte 0xFFFF data"

section \<open>Decimal arithmetic\<close>

text \<open>
  The program computes with Python's \<open>decimal.Decimal\<close> under the default context:
  precision 28, rounding \<open>ROUND_HALF_EVEN\<close>, exponents between -999999 and 999999, and
  the signals InvalidOperation, DivisionByZero and Overflow raised as exceptions.
  A finite Decimal is a sign (\<open>True\<close> for negative), a coefficient and an exponent, and
  stands for \<open>(-1)^sign * coefficient * 10^exponent\<close>. Arithmetic is modelled on finite
  Decimals; an operation gives the exact result first and \<open>dec_fix\<close> rounds it to the
  context, as the library does at the end of every operation.
\<close>

datatype decimal = Decimal (dsign: bool) (dint: nat) (dexp: int)

datatype error = InvalidOperation | DivisionByZero | Overflow

datatype rounding = ROUND_HALF_EVEN | ROUND_HALF_UP

definition prec :: nat where
  "prec = 28"

definition Emax :: int where
  "Emax = 999999"

definition Emin :: int where
  "Emin = - 999999"

definition Etiny :: int where
  "Etiny = Emin - int prec + 1"

definition Etop :: int where
  "Etop = Emax - int prec + 1"

definition ctx_rounding :: rounding where
  "ctx_rounding = ROUND_HALF_EVEN"

text \<open>The number of digits of a coefficient, \<open>len(self._int)\<close>.\<close>

definition ndigits :: "nat \<Rightarrow> nat" where
  "ndigits c = length (digits10 c)"

text \<open>
  Dropping the last \<open>k\<close> digits of a coefficient under a rounding mode: \<open>q\<close> is what is
  kept and \<open>r\<close> what is dropped. Half-even adds one when the dropped part is more than
  half a unit, or exactly half with \<open>q\<close> odd; half-up adds one from half a unit on.
\<close>

definition round_coeff :: "rounding \<Rightarrow> nat \<Rightarrow> nat \<Rightarrow> nat" where
  "round_coeff mode c k =
     (let q = c div 10 ^ k; r = c mod 10 ^ k
      in case mode of
           ROUND_HALF_UP \<Rightarrow> (if 10 ^ k \<le> 2 * r then q + 1 else q)
         | ROUND_HALF_EVEN \<Rightarrow> (if 10 ^ k < 2 * r \<or> (2 * r = 10 ^ k \<and> odd q) then q + 1 else q))"

text \<open>\<open>Decimal._fix\<close>: round to the precision of the context and check the exponent.\<close>

definition dec_fix :: "decimal \<Rightarrow> error + decimal" where
  "dec_fix d =
     (case d of Decimal s c e \<Rightarrow>
        if c = 0 then Inr (Decimal s 0 (min (max e Etiny) Emax))
        else
          let exp_min = int (ndigits c) + e - int prec
          in if Etop < exp_min then Inl Overflow
             else
               let exp_min = (if exp_min < Etiny then Etiny else exp_min)
               in if e < exp_min then
                    let coeff = round_coeff ctx_rounding c (nat (exp_min - e));
                        longer = (prec < ndigits coeff);
                        coeff' = (if longer then coeff div 10 else coeff);
                        exp_min' = (if longer then exp_min + 1 else exp_min)
                    in if Etop < exp_min' then Inl Overflow
                       else Inr (Decimal s coeff' exp_min')
                  else Inr d)"

text \<open>An integer operand is converted exactly.\<close>

definition dec_of_int :: "int \<Rightarrow> decimal" where
  "dec_of_int i = Decimal (i < 0) (nat \<bar>i\<bar>) 0"

definition dec_mul :: "decimal \<Rightarrow> decimal \<Rightarrow> error + decimal" where
  "dec_mul a b = dec_fix (Decimal (dsign a \<noteq> dsign b) (dint a * dint b) (dexp a + dexp b))"

definition signed_coeff :: "decimal \<Rightarrow> int" where
  "signed_coeff d = (if dsign d then - int (dint d) else int (dint d))"

text \<open>
  Addition: the exact sum at the smaller exponent, then \<open>dec_fix\<close>. A zero sum is
  negative only when both operands are negative.
\<close>

definition dec_add :: "decimal \<Rightarrow> decimal \<Rightarrow> error + decimal" where
  "dec_add a b =
     (let e = min (dexp a) (dexp b);
          s = signed_coeff a * 10 ^ nat (dexp a - e) + signed_coeff b * 10 ^ nat (dexp b - e)
      in dec_fix (Decimal (if s = 0 then dsign a \<and> dsign b else s < 0) (nat \<bar>s\<bar>) e))"

definition dec_neg :: "decimal \<Rightarrow> decimal" where
  "dec_neg d = Decimal (\<not> dsign d) (dint d) (dexp d)"

definition dec_sub :: "decimal \<Rightarrow> decimal \<Rightarrow> error + decimal" where
  "dec_sub a b = dec_add a (dec_neg b)"

text \<open>
  Division computes \<open>prec + 1\<close> or more digits of the quotient; an inexact quotient gets
  a sticky last digit, an exact one is brought as close to the ideal exponent as its
  trailing zeros allow.
\<close>

function div_ideal :: "nat \<Rightarrow> int \<Rightarrow> int \<Rightarrow> nat \<times> int" where
  "div_ideal coeff ex ideal =
     (if ex < ideal \<and> coeff mod 10 = 0 then div_ideal (coeff div 10) (ex + 1) ideal
      else (coeff, ex))"
  by pat_completeness auto
termination
  by (relation "measure (\<lambda>(coeff, ex, ideal). nat (ideal - ex))") auto

declare div_ideal.simps [simp del]

definition dec_div :: "decimal \<Rightarrow> decimal \<Rightarrow> error + decimal" where
  "dec_div a b =
     (let sign = (dsign a \<noteq> dsign b)
      in if dint b = 0 then (if dint a = 0 then Inl InvalidOperation else Inl DivisionByZero)
         else if dint a = 0 then dec_fix (Decimal sign 0 (dexp a - dexp b))
         else
           let shift = int (ndigits (dint b)) - int (ndigits (dint a)) + int prec + 1;
               ex = dexp a - dexp b - shift;
               num = (if 0 \<le> shift then dint a * 10 ^ nat shift else dint a);
               den = (if 0 \<le> shift then dint b else dint b * 10 ^ nat (- shift));
               coeff = num div den;
               remainder = num mod den;
               (coeff', ex') =
                  (if remainder \<noteq> 0 then (if coeff mod 5 = 0 then coeff + 1 else coeff, ex)
                   else div_ideal coeff ex (dexp a - dexp b))
           in dec_fix (Decimal sign coeff' ex'))"

text \<open>\<open>Decimal._rescale\<close> and \<open>Decimal.quantize\<close>; without a rounding argument the context's
  rounding is used.\<close>

definition dec_rescale :: "decimal \<Rightarrow> int \<Rightarrow> rounding \<Rightarrow> decimal" where
  "dec_rescale d ex mode =
     (case d of Decimal s c e \<Rightarrow>
        if c = 0 then Decimal s 0 ex
        else if ex \<le> e then Decimal s (c * 10 ^ nat (e - ex)) ex
        else Decimal s (round_coeff mode c (nat (ex - e))) ex)"

definition adjusted :: "decimal \<Rightarrow> int" where
  "adjusted d = dexp d + int (ndigits (dint d)) - 1"

definition dec_quantize :: "decimal \<Rightarrow> decimal \<Rightarrow> rounding option \<Rightarrow> error + decimal" where
  "dec_quantize d q rounding_arg =
     (let mode = (case rounding_arg of None \<Rightarrow> ctx_rounding | Some m \<Rightarrow> m);
          ex = dexp q
      in if \<not> (Etiny \<le> ex \<and> ex \<le> Emax) then Inl InvalidOperation
         else if dint d = 0 then dec_fix (Decimal (dsign d) 0 ex)
         else if Emax < adjusted d then Inl InvalidOperation
         else if int prec < adjusted d - ex + 1 then Inl InvalidOperation
         else
           let ans = dec_rescale d ex mode
           in if Emax < adjusted ans then Inl InvalidOperation
              else if prec < ndigits (dint ans) then Inl InvalidOperation
              else dec_fix ans)"

text \<open>Truth value of a Decimal and comparison with the integer 0.\<close>

definition dec_bool :: "decimal \<Rightarrow> bool" where
  "dec_bool d = (dint d \<noteq> 0)"

definition dec_gt_zero :: "decimal \<Rightarrow> bool" where
  "dec_gt_zero d = (dint d \<noteq> 0 \<and> \<not> dsign d)"

text \<open>\<open>str\<close> of a finite Decimal, which the empty format specification gives too.\<close>

definition fmt_plus_d :: "int \<Rightarrow> string" where
  "fmt_plus_d i = (if i < 0 then CHR ''-'' else CHR ''+'') # digits10 (nat \<bar>i\<bar>)"

definition dec_str :: "decimal \<Rightarrow> string" where
  "dec_str d =
     (case d of Decimal s c e \<Rightarrow>
        let ds = digits10 c;
            leftdigits = e + int (length ds);
            dotplace = (if e \<le> 0 \<and> - 6 < leftdigits then leftdigits else 1);
            intpart = (if dotplace \<le> 0 then ''0''
                       else if int (length ds) \<le> dotplace
                            then ds @ replicate (nat (dotplace - int (length ds))) (CHR ''0'')
                       else take (nat dotplace) ds);
            fracpart = (if dotplace \<le> 0 then ''.'' @ replicate (nat (- dotplace)) (CHR ''0'') @ ds
                        else if int (length ds) \<le> dotplace then []
                        else ''.'' @ drop (nat dotplace) ds);
            ex = (if leftdigits = dotplace then [] else ''E'' @ fmt_plus_d (leftdigits - dotplace))
        in (if s then ''-'' else []) @ intpart @ fracpart @ ex)"

section \<open>Money\<close>

definition MONEY_Q :: decimal where
  "MONEY_Q = Decimal False 1 (- 2)"

text \<open>
  A Decimal read from text can also be an infinity or a NaN (quiet or signalling, with a
  numeric payload).
\<close>

datatype pydecimal = Finite decimal | Infinity bool | NaN bool bool nat

datatype pyarg = PyNone | PyDecimal pydecimal | PyStr string

definition is_space :: "char \<Rightarrow> bool" where
  "is_space c =
     (let n = (of_char c :: nat)
      in (9 \<le> n \<and> n \<le> 13) \<or> (28 \<le> n \<and> n \<le> 32) \<or> n = 133 \<or> n = 160)"

definition strip :: "string \<Rightarrow> string" where
  "strip s = rev (dropWhile is_space (rev (dropWhile is_space s)))"

definition replace_char :: "char \<Rightarrow> char \<Rightarrow> string \<Rightarrow> string" where
  "replace_char old new s = map (\<lambda>c. if c = old then new else c) s"

definition is_digit :: "char \<Rightarrow> bool" where
  "is_digit c = (let n = (of_char c :: nat) in 48 \<le> n \<and> n \<le> 57)"

definition lower :: "char \<Rightarrow> char" where
  "lower c = (let n = (of_char c :: nat) in if 65 \<le> n \<and> n \<le> 90 then char_of (n + 32) else c)"

text \<open>\<open>int\<close> of a string of digits; the empty string counts as 0.\<close>

definition digits_val :: "string \<Rightarrow> nat" where
  "digits_val ds = foldl (\<lambda>a c. 10 * a + ((of_char c :: nat) - 48)) 0 ds"

text \<open>
  The grammar of \<open>Decimal(text)\<close>: the text is stripped and its underscores removed; then
  an optional sign is followed by a number (digits with an optional point and fraction,
  at least one digit, and an optional exponent \<open>E\<close>, sign, digits), or by \<open>Inf\<close> or
  \<open>Infinity\<close>, or by \<open>NaN\<close> or \<open>sNaN\<close> and digits, letters in either case. Anything else
  raises InvalidOperation.
\<close>

definition parse_exp :: "string \<Rightarrow> int option" where
  "parse_exp s =
     (let neg = (s \<noteq> [] \<and> hd s = CHR ''-'');
          ds = (if s \<noteq> [] \<and> (hd s = CHR ''-'' \<or> hd s = CHR ''+'') then tl s else s)
      in if ds \<noteq> [] \<and> list_all is_digit ds
         then Some (if neg then - int (digits_val ds) else int (digits_val ds))
         else None)"

definition parse_number :: "bool \<Rightarrow> string \<Rightarrow> pydecimal option" where
  "parse_number sign s =
     (let intpart = takeWhile is_digit s;
          r1 = dropWhile is_digit s;
          has_frac = (r1 \<noteq> [] \<and> hd r1 = CHR ''.'');
          frac = (if has_frac then takeWhile is_digit (tl r1) else []);
          r2 = (if has_frac then dropWhile is_digit (tl r1) else r1);
          coeff = digits_val (intpart @ frac)
      in if intpart = [] \<and> frac = [] then None
         else if r2 = [] then Some (Finite (Decimal sign coeff (- int (length frac))))
         else if lower (hd r2) = CHR ''e'' then
           (case parse_exp (tl r2) of
              None \<Rightarrow> None
            | Some x \<Rightarrow> Some (Finite (Decimal sign coeff (x - int (length frac)))))
         else None)"

definition parse_special :: "bool \<Rightarrow> string \<Rightarrow> pydecimal option" where
  "parse_special sign s =
     (let l = map lower s
      in if l = ''inf'' \<or> l = ''infinity'' then Some (Infinity sign)
         else if take 3 l = ''nan'' \<and> list_all is_digit (drop 3 l)
           then Some (NaN sign False (digits_val (drop 3 l)))
         else if take 4 l = ''snan'' \<and> list_all is_digit (drop 4 l)
           then Some (NaN sign True (digits_val (drop 4 l)))
         else None)"

definition Decimal_of_str :: "string \<Rightarrow> error + pydecimal" where
  "Decimal_of_str v =
     (let t = filter (\<lambda>c. c \<noteq> CHR ''_'') (strip v);
          signed = (t \<noteq> [] \<and> (hd t = CHR ''-'' \<or> hd t = CHR ''+''));
          sign = (t \<noteq> [] \<and> hd t = CHR ''-'');
          body = (if signed then tl t else t)
      in case parse_number sign body of
           Some d \<Rightarrow> Inr d
         | None \<Rightarrow> (case parse_special sign body of
                      Some d \<Rightarrow> Inr d
                    | None \<Rightarrow> Inl InvalidOperation))"

text \<open>\<open>to_decimal\<close>; an argument that is neither \<open>None\<close> nor a Decimal arrives as its \<open>str\<close>.\<close>

definition to_decimal :: "pyarg \<Rightarrow> error + pydecimal" where
  "to_decimal x =
     (case x of
        PyNone \<Rightarrow> Inr (Finite (Decimal False 0 0))
      | PyDecimal d \<Rightarrow> Inr d
      | PyStr t \<Rightarrow>
          let s = strip (replace_char (CHR '','') (CHR ''.'') t)
          in if s = [] then Inr (Finite (Decimal False 0 0)) else Decimal_of_str s)"

section \<open>Prices and line totals\<close>

text \<open>
  \<open>ProductRepo.upsert\<close> computes the sale price as
  \<^verbatim>\<open>(cost * (Decimal('1.0') + (margin/Decimal('100')))).quantize(MONEY_Q)\<close>,
  with no rounding argument.
\<close>

definition upsert_sale_price :: "decimal \<Rightarrow> decimal \<Rightarrow> error + decimal" where
  "upsert_sale_price cost margin =
     (case dec_div margin (Decimal False 100 0) of
        Inl e \<Rightarrow> Inl e
      | Inr m \<Rightarrow>
          (case dec_add (Decimal False 10 (- 1)) m of
             Inl e \<Rightarrow> Inl e
           | Inr f \<Rightarrow>
               (case dec_mul cost f of
                  Inl e \<Rightarrow> Inl e
                | Inr p \<Rightarrow> dec_quantize p MONEY_Q None)))"

text \<open>
  \<open>SalesRepo.add_item\<close> computes \<open>line_total\<close> and \<open>line_profit\<close> before it writes the row,
  and returns them. There is no check of \<open>qty\<close>.
\<close>

definition add_item :: "int \<Rightarrow> decimal \<Rightarrow> decimal \<Rightarrow> error + decimal \<times> decimal" where
  "add_item qty unit_price unit_cost =
     (case dec_mul unit_price (dec_of_int qty) of
        Inl e \<Rightarrow> Inl e
      | Inr t \<Rightarrow>
          (case dec_quantize t MONEY_Q None of
             Inl e \<Rightarrow> Inl e
           | Inr line_total \<Rightarrow>
               (case dec_sub unit_price unit_cost of
                  Inl e \<Rightarrow> Inl e
                | Inr d \<Rightarrow>
                    (case dec_mul d (dec_of_int qty) of
                       Inl e \<Rightarrow> Inl e
                     | Inr p \<Rightarrow>
                         (case dec_quantize p MONEY_Q None of
                            Inl e \<Rightarrow> Inl e
                          | Inr line_profit \<Rightarrow> Inr (line_total, line_profit))))))"

section \<open>The payload\<close>

text \<open>Python's \<open>a or b\<close> on text: \<open>a\<close> unless it is empty.\<close>

definition str_or :: "string \<Rightarrow> string \<Rightarrow> string" where
  "str_or a b = (if a = [] then b else a)"

text \<open>The amount field:
  \<^verbatim>\<open>_emv_kv("54", f"{amount.quantize(MONEY_Q)}") if amount and amount > 0 else ""\<close>.\<close>

definition amount_field :: "decimal option \<Rightarrow> error + string" where
  "amount_field amount =
     (case amount of
        None \<Rightarrow> Inr []
      | Some a \<Rightarrow>
          if dec_bool a \<and> dec_gt_zero a then
            (case dec_quantize a MONEY_Q None of
               Inl e \<Rightarrow> Inl e
             | Inr q \<Rightarrow> Inr (emv_kv ''54'' (dec_str q)))
          else Inr [])"

definition build_pix_payload ::
  "string \<Rightarrow> string \<Rightarrow> string \<Rightarrow> decimal option \<Rightarrow> string \<Rightarrow> error + string" where
  "build_pix_payload key merchant_name merchant_city amount txid =
     (if key = [] \<or> merchant_name = [] \<or> merchant_city = [] then Inr []
      else
        let gui = emv_kv ''00'' ''BR.GOV.BCB.PIX'';
            acc = gui @ emv_kv ''01'' key;
            mai = emv_kv ''26'' acc;
            pfi = emv_kv ''00'' ''01'';
            mcc = emv_kv ''52'' ''0000'';
            cur = emv_kv ''53'' ''986''
        in case amount_field amount of
             Inl e \<Rightarrow> Inl e
           | Inr amt \<Rightarrow>
               let cty = emv_kv ''58'' ''BR'';
                   mname = emv_kv ''59'' (str_or (take 25 merchant_name) ''LOJA'');
                   mcity = emv_kv ''60'' (str_or (take 15 merchant_city) ''CIDADE'');
                   tx = emv_kv ''05'' (take 25 txid);
                   add = emv_kv ''62'' tx;
                   partial = pfi @ mai @ mcc @ cur @ amt @ cty @ mname @ mcity @ add @ ''6304'';
                   crc = crc16_ccitt (utf8_encode partial);
                   crc_str = fmt_04X crc
               in Inr (partial @ crc_str))"

section \<open>Notions used to state the properties\<close>

text \<open>The rational number a finite Decimal stands for.\<close>

definition dec_val :: "decimal \<Rightarrow> rat" where
  "dec_val d =
     of_int (signed_coeff d) * (if 0 \<le> dexp d then 10 ^ nat (dexp d) else 1 / 10 ^ nat (- dexp d))"

text \<open>
  Rounding to two fractional digits, half away from zero, as the specification words it.
\<close>

definition round_half_up_2 :: "rat \<Rightarrow> rat" where
  "round_half_up_2 x = sgn x * of_int \<lfloor>\<bar>x\<bar> * 100 + 1 / 2\<rfloor> / 100"

text \<open>The text of a sequence of fields, each composed by \<open>emv_kv\<close>.\<close>

definition tlv_join :: "(string \<times> string) list \<Rightarrow> string" where
  "tlv_join fields = concat (map (\<lambda>(ident, val). emv_kv ident val) fields)"

text \<open>A body of text followed by the \<open>04X\<close> rendering of the checksum of its UTF-8 bytes.\<close>

definition sealed :: "string \<Rightarrow> string" where
  "sealed partial = partial @ fmt_04X (crc16_ccitt (utf8_encode partial))"

text \<open>The fields before and after the place of the amount field, in the order of the code.\<close>

definition head_fields :: "string \<Rightarrow> (string \<times> string) list" where
  "head_fields key =
     [(''00'', ''01''),
      (''26'', emv_kv ''00'' ''BR.GOV.BCB.PIX'' @ emv_kv ''01'' key),
      (''52'', ''0000''),
      (''53'', ''986'')]"

definition tail_fields :: "string \<Rightarrow> string \<Rightarrow> string \<Rightarrow> (string \<times> string) list" where
  "tail_fields name city reference =
     [(''58'', ''BR''),
      (''59'', name),
      (''60'', city),
      (''62'', emv_kv ''05'' reference)]"

text \<open>
  The characters that can occur in a text \<open>to_decimal\<close> accepts, apart from white space:
  digits, signs, the two separators, the underscore, and the letters of an exponent, of
  \<open>Inf\<close>, \<open>Infinity\<close>, \<open>NaN\<close> and \<open>sNaN\<close> in either case.
\<close>

definition decimal_char :: "char \<Rightarrow> bool" where
  "decimal_char c = (is_digit c \<or> c \<in> set ''+-.,_'' \<or> lower c \<in> set ''einftysa'')"

text \<open>
  The checksum as the specification words it, on a 16-bit register: start from 0xFFFF;
  for each byte, XOR the byte into the high 8 bits and then, eight times, shift left, with
  an XOR of the polynomial 0x1021 when the high bit was set.
\<close>

definition crc16_spec_step :: "16 word \<Rightarrow> 16 word" where
  "crc16_spec_step r = (if bit r 15 then push_bit 1 r XOR 0x1021 else push_bit 1 r)"

definition crc16_spec_byte :: "16 word \<Rightarrow> byte \<Rightarrow> 16 word" where
  "crc16_spec_byte r b = (crc16_spec_step ^^ 8) (r XOR push_bit 8 (ucast b))"

definition crc16_spec :: "byte list \<Rightarrow> 16 word" where
  "crc16_spec data = foldl crc16_spec_byte 0xFFFF data"

section \<open>The checksum\<close>

lemma crc_step_range: "0 \<le> crc_step crc \<and> crc_step crc < 65536"
proof -
  have "crc_step crc = (if crc AND 0x8000 \<noteq> 0 then push_bit 1 crc XOR 0x1021 else push_bit 1 crc) AND 0xFFFF"
    by (simp add: crc_step_def Let_def)
  moreover have "0 \<le> x AND (0xFFFF :: int)" for x
    by simp
  moreover have "x AND (0xFFFF :: int) \<le> 0xFFFF" for x
    by (rule AND_upper2) simp
  ultimately show ?thesis
    by simp
qed

lemma crc_byte_range: "0 \<le> crc_byte crc b \<and> crc_byte crc b < 65536"
proof -
  have "crc_byte crc b = crc_step ((crc_step ^^ 7) (crc XOR push_bit 8 (uint b)))"
    by (simp add: crc_byte_def numeral_eq_Suc)
  then show ?thesis
    using crc_step_range by simp
qed

lemma crc_fold_range: "0 \<le> crc \<Longrightarrow> crc < 65536 \<Longrightarrow> 0 \<le> foldl crc_byte crc data \<and> foldl crc_byte crc data < 65536"
proof (induction data arbitrary: crc)
  case Nil
  then show ?case by simp
next
  case (Cons b bs)
  show ?case
    using Cons.IH [of "crc_byte crc b"] crc_byte_range [of crc b] by simp
qed

lemma crc16_ccitt_range: "0 \<le> crc16_ccitt data \<and> crc16_ccitt data < 65536"
  unfolding crc16_ccitt_def by (rule crc_fold_range) simp_all

text \<open>The integer register of the code and the 16-bit register of the specification agree.\<close>

lemma mask16: "(x::int) AND 0xFFFF = take_bit 16 x"
  by (simp add: take_bit_eq_mask mask_eq_exp_minus_1)

lemma high_bit: "(uint (r :: 16 word) AND 0x8000 \<noteq> 0) = bit r 15"
proof -
  have "bit (uint r) 15 = (uint r AND push_bit 15 1 \<noteq> 0)"
    by (rule bit_iff_and_push_bit_not_eq_0)
  then show ?thesis
    by (simp add: bit_uint_iff)
qed

lemma crc_step_spec: "crc_step (uint r) = uint (crc16_spec_step r)"
proof -
  have a: "take_bit 16 (x XOR 0x1021) = take_bit 16 x XOR 0x1021" for x :: int
    by (simp add: take_bit_xor)
  have b: "uint (push_bit 1 r) = take_bit 16 (push_bit 1 (uint r))"
    by (simp only: unsigned_push_bit_eq) simp
  have c: "uint (push_bit 1 r XOR 0x1021) = take_bit 16 (push_bit 1 (uint r)) XOR 0x1021"
    by (simp only: uint_xor b) simp
  show ?thesis
    unfolding crc_step_def crc16_spec_step_def Let_def mask16 high_bit
    by (simp only: a b c if_distrib [of uint] if_distrib [of "take_bit 16"])
qed

lemma crc_funpow_spec: "(crc_step ^^ n) (uint r) = uint ((crc16_spec_step ^^ n) r)"
  by (induction n) (simp_all add: crc_step_spec)

lemma crc_byte_spec: "crc_byte (uint r) b = uint (crc16_spec_byte r b)"
proof -
  have "uint (push_bit 8 (ucast b) :: 16 word) = push_bit 8 (uint b)"
  proof -
    have "uint b < 2 ^ 8"
      using uint_bounded [of b] by simp
    then have "push_bit 8 (uint b) < 2 ^ 16"
      by (simp add: push_bit_eq_mult)
    then show ?thesis
      by (simp add: unsigned_push_bit_eq uint_up_ucast is_up take_bit_int_eq_self)
  qed
  then have "uint r XOR push_bit 8 (uint b) = uint (r XOR push_bit 8 (ucast b))"
    by (simp add: uint_xor)
  then show ?thesis
    by (simp add: crc_byte_def crc16_spec_byte_def crc_funpow_spec)
qed

lemma crc_fold_spec: "foldl crc_byte (uint r) data = uint (foldl crc16_spec_byte r data)"
  by (induction data arbitrary: r) (simp_all add: crc_byte_spec)

lemma crc16_ccitt_spec: "crc16_ccitt data = uint (crc16_spec data)"
proof -
  have "(0xFFFF :: int) = uint (0xFFFF :: 16 word)"
    by simp
  then show ?thesis
    unfolding crc16_ccitt_def crc16_spec_def by (simp only: crc_fold_spec)
qed

text \<open>
  C3: \<open>_crc16_ccitt\<close> is a function of its input bytes alone; it computes what the
  algorithm of the specification computes on a 16-bit register; its result always fits
  in 16 bits; and on the standard test vector, the ASCII bytes of \<open>123456789\<close>, it gives
  0x29B1.
\<close>

theorem crc16_ccitt_check:
  "crc16_ccitt data = uint (crc16_spec data)
   \<and> 0 \<le> crc16_ccitt data \<and> crc16_ccitt data < 2 ^ 16
   \<and> crc16_ccitt [0x31, 0x32, 0x33, 0x34, 0x35, 0x36, 0x37, 0x38, 0x39] = 0x29B1"
proof -
  have "crc16_ccitt [0x31, 0x32, 0x33, 0x34, 0x35, 0x36, 0x37, 0x38, 0x39] = 0x29B1"
    by code_simp
  then show ?thesis
    using crc16_ccitt_range [of data] crc16_ccitt_spec [of data] by simp
qed

section \<open>Digits and padding\<close>

lemma digit_char_simps [simp]:
  "digit_char 0 = CHR ''0''" "digit_char 1 = CHR ''1''" "digit_char 2 = CHR ''2''"
  "digit_char 3 = CHR ''3''" "digit_char 4 = CHR ''4''" "digit_char 5 = CHR ''5''"
  "digit_char 6 = CHR ''6''" "digit_char 7 = CHR ''7''" "digit_char 8 = CHR ''8''"
  "digit_char 9 = CHR ''9''" "digit_char (Suc 0) = CHR ''1''"
  by code_simp+

lemma digit_char_Suc [simp]:
  "digit_char (Suc (Suc 0)) = CHR ''2''"
  "digit_char (Suc (Suc (Suc 0))) = CHR ''3''"
  "digit_char (Suc (Suc (Suc (Suc 0)))) = CHR ''4''"
  "digit_char (Suc (Suc (Suc (Suc (Suc 0))))) = CHR ''5''"
  "digit_char (Suc (Suc (Suc (Suc (Suc (Suc 0)))))) = CHR ''6''"
  "digit_char (Suc (Suc (Suc (Suc (Suc (Suc (Suc 0))))))) = CHR ''7''"
  "digit_char (Suc (Suc (Suc (Suc (Suc (Suc (Suc (Suc 0)))))))) = CHR ''8''"
  "digit_char (Suc (Suc (Suc (Suc (Suc (Suc (Suc (Suc (Suc 0))))))))) = CHR ''9''"
  by code_simp+

lemma hex_char_simps [simp]:
  "hex_char 0 = CHR ''0''" "hex_char 1 = CHR ''1''" "hex_char 2 = CHR ''2''"
  "hex_char 3 = CHR ''3''" "hex_char 4 = CHR ''4''" "hex_char 5 = CHR ''5''"
  "hex_char 6 = CHR ''6''" "hex_char 7 = CHR ''7''" "hex_char 8 = CHR ''8''"
  "hex_char 9 = CHR ''9''" "hex_char 10 = CHR ''A''" "hex_char 11 = CHR ''B''"
  "hex_char 12 = CHR ''C''" "hex_char 13 = CHR ''D''" "hex_char 14 = CHR ''E''"
  "hex_char 15 = CHR ''F''" "hex_char (Suc 0) = CHR ''1''"
  by code_simp+

lemma digits10_small: "n < 10 \<Longrightarrow> digits10 n = [digit_char n]"
  by (subst digits10.simps) simp

lemma digits10_step: "10 \<le> n \<Longrightarrow> digits10 n = digits10 (n div 10) @ [digit_char (n mod 10)]"
  by (subst digits10.simps) simp

lemma digits10_nonempty: "digits10 n \<noteq> []"
  by (subst digits10.simps) simp

lemma length_digits10_le: "0 < k \<Longrightarrow> (length (digits10 n) \<le> k) = (n < 10 ^ k)"
proof (induction n arbitrary: k rule: digits10.induct)
  case (1 n)
  show ?case
  proof (cases "n < 10")
    case True
    have "(10::nat) ^ 1 \<le> 10 ^ k"
      using "1.prems" by (intro power_increasing) simp_all
    with True "1.prems" show ?thesis
      by (simp add: digits10_small Suc_le_eq)
  next
    case False
    then have step: "digits10 n = digits10 (n div 10) @ [digit_char (n mod 10)]"
      by (simp add: digits10_step)
    show ?thesis
    proof (cases "k = 1")
      case True
      with False step digits10_nonempty [of "n div 10"] show ?thesis
        by (cases "digits10 (n div 10)") simp_all
    next
      case k: False
      with "1.prems" obtain j where j: "k = Suc j" "0 < j"
        by (cases k) auto
      have "(length (digits10 (n div 10)) \<le> j) = (n div 10 < 10 ^ j)"
        using False j by (intro "1.IH") simp_all
      moreover have "(n div 10 < 10 ^ j) = (n < 10 ^ Suc j)"
        by (simp add: div_less_iff_less_mult mult.commute)
      ultimately show ?thesis
        using step j by simp
    qed
  qed
qed

lemma fmt_02d_two: "n \<le> 99 \<Longrightarrow> fmt_02d n = [digit_char (n div 10), digit_char (n mod 10)]"
proof (cases "n < 10")
  case True
  then show ?thesis
    by (simp add: fmt_02d_def zfill_def digits10_small)
next
  case False
  assume "n \<le> 99"
  with False have "n div 10 < 10" by simp
  with False show ?thesis
    by (simp add: fmt_02d_def zfill_def digits10_step digits10_small)
qed

lemma fmt_02d_long: "99 < n \<Longrightarrow> fmt_02d n = digits10 n \<and> 3 \<le> length (digits10 n)"
proof -
  assume n: "99 < n"
  have "\<not> length (digits10 n) \<le> 2"
    using n by (simp add: length_digits10_le)
  then show ?thesis
    by (simp add: fmt_02d_def zfill_def)
qed

section \<open>The field composer\<close>

text \<open>
  C7, as the code has it: \<open>_emv_kv\<close> never fails. For a value of at most 99 characters it
  returns the id, the character count as exactly two digits (zero-padded), and the value;
  for a longer value it returns the id, the count in three or more digits, and the value.
\<close>

theorem emv_kv_length_field:
  "(length v \<le> 99 \<longrightarrow>
      emv_kv i v = i @ [digit_char (length v div 10), digit_char (length v mod 10)] @ v)
   \<and> (99 < length v \<longrightarrow>
      emv_kv i v = i @ digits10 (length v) @ v \<and> 3 \<le> length (digits10 (length v)))"
  by (simp add: emv_kv_def fmt_02d_two fmt_02d_long)

theorem emv_kv_length_field_witness:
  "length ''BR'' \<le> 99 \<and> emv_kv ''58'' ''BR'' = ''5802BR''
   \<and> 99 < length (replicate 120 (CHR ''A''))
   \<and> emv_kv ''59'' (replicate 120 (CHR ''A'')) = ''59120'' @ replicate 120 (CHR ''A'')"
proof -
  have a: "emv_kv ''58'' ''BR'' = ''5802BR''"
    using emv_kv_length_field [of "''BR''" "''58''"] by simp
  have "digits10 120 = ''120''"
    by (simp add: digits10.simps)
  then have b: "emv_kv ''59'' (replicate 120 (CHR ''A'')) = ''59120'' @ replicate 120 (CHR ''A'')"
    using emv_kv_length_field [of "replicate 120 (CHR ''A'')" "''59''"] by simp
  show ?thesis
    using a b by simp
qed

text \<open>
  C7 as the specification states it fails: a value of 100 characters is composed, with a
  length of three digits, where the specification wants a FieldTooLong error.
\<close>

theorem emv_kv_no_length_error:
  "emv_kv ''59'' (replicate 100 (CHR ''A'')) = ''59100'' @ replicate 100 (CHR ''A'')"
  by (simp add: emv_kv_def fmt_02d_def zfill_def digits10.simps)

section \<open>The checksum rendered\<close>

lemma funpow8: "(f ^^ 8) x = f (f (f (f (f (f (f (f x)))))))"
  by (simp add: numeral_eq_Suc)

lemma crc_byte_unfold:
  "crc_byte crc b =
     crc_step (crc_step (crc_step (crc_step (crc_step (crc_step (crc_step (crc_step
       (crc XOR push_bit 8 (uint b)))))))))"
  by (simp add: crc_byte_def funpow8)

lemma digits16_small: "n < 16 \<Longrightarrow> digits16 n = [hex_char n]"
  by (subst digits16.simps) simp

lemma digits16_step: "16 \<le> n \<Longrightarrow> digits16 n = digits16 (n div 16) @ [hex_char (n mod 16)]"
  by (subst digits16.simps) simp

lemma zfill4:
  "zfill 4 [a] = [CHR ''0'', CHR ''0'', CHR ''0'', a]"
  "zfill 4 [a, b] = [CHR ''0'', CHR ''0'', a, b]"
  "zfill 4 [a, b, c] = [CHR ''0'', a, b, c]"
  "zfill 4 [a, b, c, d] = [a, b, c, d]"
  by (simp_all add: zfill_def numeral_eq_Suc)

text \<open>The format \<open>04X\<close> of a 16-bit value: its four hexadecimal digits, upper case.\<close>

lemma fmt_04X_16bit:
  assumes "0 \<le> n" "n < 65536"
  shows "fmt_04X n = [hex_char (nat n div 4096), hex_char (nat n div 256 mod 16),
                      hex_char (nat n div 16 mod 16), hex_char (nat n mod 16)]"
proof -
  define m where "m = nat n"
  have m: "m < 65536"
    using assms by (simp add: m_def)
  consider "m < 16" | "16 \<le> m" "m < 256" | "256 \<le> m" "m < 4096" | "4096 \<le> m"
    by linarith
  then have "zfill 4 (digits16 m) = [hex_char (m div 4096), hex_char (m div 256 mod 16),
                      hex_char (m div 16 mod 16), hex_char (m mod 16)]"
  proof cases
    case 1
    then show ?thesis
      by (simp add: digits16_small zfill4)
  next
    case 2
    then have "m div 16 < 16" by simp
    with 2 show ?thesis
      by (simp add: digits16_step digits16_small zfill4)
  next
    case 3
    then have a: "16 \<le> m" "16 \<le> m div 16" "m div 16 div 16 < 16"
      by simp_all
    have b: "m div 16 div 16 = m div 256"
      by (simp add: div_mult2_eq [symmetric])
    from 3 a b show ?thesis
      by (simp add: digits16_step digits16_small zfill4)
  next
    case 4
    then have a: "16 \<le> m" "16 \<le> m div 16" "16 \<le> m div 16 div 16" "m div 16 div 16 div 16 < 16"
      using m by simp_all
    have b: "m div 16 div 16 = m div 256" "m div 16 div 16 div 16 = m div 4096"
      by (simp_all add: div_mult2_eq [symmetric])
    have c: "m div 4096 mod 16 = m div 4096"
      using m by simp
    from 4 a b c show ?thesis
      by (simp add: digits16_step digits16_small zfill4)
  qed
  then show ?thesis
    using assms by (simp add: fmt_04X_def m_def)
qed

lemma hex_char_upper: "d < 16 \<Longrightarrow> hex_char d \<in> set ''0123456789ABCDEF''"
proof -
  assume "d < 16"
  then have "d \<in> set [0..<16]"
    by simp
  moreover have "\<forall>d\<in>set [0..<16]. hex_char d \<in> set ''0123456789ABCDEF''"
    by code_simp
  ultimately show ?thesis
    by blast
qed

section \<open>The payload\<close>

lemma tlv_join_append: "tlv_join (xs @ ys) = tlv_join xs @ tlv_join ys"
  by (simp add: tlv_join_def)

lemma tlv_join_single: "tlv_join [(i, v)] = emv_kv i v"
  by (simp add: tlv_join_def)

lemma tlv_join_Cons: "tlv_join ((i, v) # fields) = emv_kv i v @ tlv_join fields"
  by (simp add: tlv_join_def)

lemma take_min_length: "take (min n (length s)) s = take n s"
  by (cases "n \<le> length s") (simp_all add: min_def)

lemma str_or_take: "s \<noteq> [] \<Longrightarrow> 0 < n \<Longrightarrow> str_or (take n s) d = take (min n (length s)) s"
  by (simp add: str_or_def take_min_length)

text \<open>What \<open>build_pix_payload\<close> returns for a payee, given the text of the amount field.\<close>

lemma build_pix_payload_unfold:
  assumes "key \<noteq> []" "merchant_name \<noteq> []" "merchant_city \<noteq> []"
    and "amount_field amount = Inr amt"
  shows "build_pix_payload key merchant_name merchant_city amount txid =
           Inr (sealed (tlv_join (head_fields key) @ amt
                        @ tlv_join (tail_fields (take 25 merchant_name) (take 15 merchant_city) (take 25 txid))
                        @ ''6304''))"
proof -
  have "str_or (take 25 merchant_name) ''LOJA'' = take 25 merchant_name"
    "str_or (take 15 merchant_city) ''CIDADE'' = take 15 merchant_city"
    using assms by (simp_all add: str_or_def)
  then show ?thesis
    using assms
    by (simp add: build_pix_payload_def Let_def sealed_def tlv_join_def head_fields_def tail_fields_def)
qed

lemma build_pix_payload_error:
  assumes "key \<noteq> []" "merchant_name \<noteq> []" "merchant_city \<noteq> []"
    and "amount_field amount = Inl e"
  shows "build_pix_payload key merchant_name merchant_city amount txid = Inl e"
  using assms by (simp add: build_pix_payload_def Let_def)

lemma build_pix_payload_no_payee:
  "key = [] \<or> merchant_name = [] \<or> merchant_city = [] \<Longrightarrow>
   build_pix_payload key merchant_name merchant_city amount txid = Inr []"
  by (auto simp: build_pix_payload_def)

lemma amount_field_cases:
  assumes "amount_field amount = Inr amt"
  shows "(amt = [] \<and> (case amount of None \<Rightarrow> True | Some a \<Rightarrow> \<not> (dec_bool a \<and> dec_gt_zero a)))
         \<or> (\<exists>a q. amount = Some a \<and> dec_bool a \<and> dec_gt_zero a
                \<and> dec_quantize a MONEY_Q None = Inr q \<and> amt = emv_kv ''54'' (dec_str q))"
  using assms by (auto simp: amount_field_def split: option.splits if_splits sum.splits)

lemma sealed_nonempty: "sealed (xs @ ''6304'') \<noteq> []"
  by (simp add: sealed_def)

text \<open>Two calls evaluated: without an amount, and with the amount 12.50.\<close>

lemma example_partial:
  "tlv_join (head_fields ''k'') @ tlv_join (tail_fields ''N'' ''C'' ''T'') @ ''6304''
     = ''00020126230014BR.GOV.BCB.PIX0101k5204000053039865802BR5901N6001C62050501T6304''"
  by (simp add: tlv_join_def head_fields_def tail_fields_def emv_kv_def fmt_02d_def zfill_def
      digits10.simps)

lemma example_sealed:
  "sealed ''00020126230014BR.GOV.BCB.PIX0101k5204000053039865802BR5901N6001C62050501T6304''
     = ''00020126230014BR.GOV.BCB.PIX0101k5204000053039865802BR5901N6001C62050501T6304F78E''"
  by (simp add: sealed_def utf8_encode_def utf8_char_def crc16_ccitt_def crc_byte_unfold
      crc_step_def Let_def fmt_04X_def digits16.simps zfill_def)

lemma example_payload:
  "build_pix_payload ''k'' ''N'' ''C'' None ''T''
     = Inr ''00020126230014BR.GOV.BCB.PIX0101k5204000053039865802BR5901N6001C62050501T6304F78E''"
proof -
  have "amount_field None = Inr []"
    by (simp add: amount_field_def)
  then have "build_pix_payload ''k'' ''N'' ''C'' None ''T''
     = Inr (sealed (tlv_join (head_fields ''k'') @ []
           @ tlv_join (tail_fields (take 25 ''N'') (take 15 ''C'') (take 25 ''T'')) @ ''6304''))"
    by (intro build_pix_payload_unfold) simp_all
  then show ?thesis
    using example_partial example_sealed by simp
qed

lemma build_pix_payload_Inr:
  assumes "key \<noteq> []" "merchant_name \<noteq> []" "merchant_city \<noteq> []"
    and "build_pix_payload key merchant_name merchant_city amount txid = Inr p"
  shows "\<exists>amt. amount_field amount = Inr amt
           \<and> p = sealed (tlv_join (head_fields key) @ amt
                        @ tlv_join (tail_fields (take 25 merchant_name) (take 15 merchant_city) (take 25 txid))
                        @ ''6304'')"
proof (cases "amount_field amount")
  case (Inl e)
  with assms show ?thesis
    by (simp add: build_pix_payload_error)
next
  case (Inr amt)
  with assms build_pix_payload_unfold [OF assms(1-3) Inr, of txid] show ?thesis
    by simp
qed

lemma head_fields_tags: "map fst (head_fields key) = [''00'', ''26'', ''52'', ''53'']"
  by (simp add: head_fields_def)

lemma tail_fields_tags: "map fst (tail_fields name city reference) = [''58'', ''59'', ''60'', ''62'']"
  by (simp add: tail_fields_def)

text \<open>
  C1, as the code orders the fields: every non-empty payload is the point-of-initiation
  field (tag 00), then the merchant-account field (tag 26), then the fields with tags 52
  and 53, the amount field (tag 54) if there is one, the fields with tags 58, 59, 60 and
  62, and last the checksum field: the text \<open>6304\<close> and the checksum of all before it.
\<close>

theorem build_pix_payload_field_order:
  assumes "build_pix_payload key merchant_name merchant_city amount txid = Inr p" and "p \<noteq> []"
  shows "\<exists>amt. (amt = [] \<or> (\<exists>v. amt = [(''54'', v)]))
           \<and> p = sealed (tlv_join (head_fields key @ amt
                     @ tail_fields (take 25 merchant_name) (take 15 merchant_city) (take 25 txid))
                   @ ''6304'')
           \<and> map fst (head_fields key @ amt
                     @ tail_fields (take 25 merchant_name) (take 15 merchant_city) (take 25 txid))
               = [''00'', ''26'', ''52'', ''53''] @ map fst amt @ [''58'', ''59'', ''60'', ''62'']"
proof -
  have payee: "key \<noteq> []" "merchant_name \<noteq> []" "merchant_city \<noteq> []"
    using assms build_pix_payload_no_payee [of key merchant_name merchant_city amount txid]
    by auto
  from build_pix_payload_Inr [OF payee assms(1)] obtain t where
    t: "amount_field amount = Inr t"
    and p: "p = sealed (tlv_join (head_fields key) @ t
                 @ tlv_join (tail_fields (take 25 merchant_name) (take 15 merchant_city) (take 25 txid))
                 @ ''6304'')"
    by blast
  have "\<exists>amt. (amt = [] \<or> (\<exists>v. amt = [(''54'', v)])) \<and> t = tlv_join amt"
    using amount_field_cases [OF t]
  proof (elim disjE conjE exE)
    assume "t = []"
    then show ?thesis
      by (intro exI [of _ "[]"]) (simp add: tlv_join_def)
  next
    fix a q
    assume "t = emv_kv ''54'' (dec_str q)"
    then show ?thesis
      by (intro exI [of _ "[(''54'', dec_str q)]"]) (simp add: tlv_join_single)
  qed
  then obtain amt where
    amt: "amt = [] \<or> (\<exists>v. amt = [(''54'', v)])" and "t = tlv_join amt"
    by blast
  with p have "p = sealed (tlv_join (head_fields key @ amt
                     @ tail_fields (take 25 merchant_name) (take 15 merchant_city) (take 25 txid))
                   @ ''6304'')"
    by (simp add: tlv_join_append)
  with amt show ?thesis
    by (intro exI [of _ amt]) (simp add: head_fields_tags tail_fields_tags)
qed

theorem build_pix_payload_field_order_witness:
  "build_pix_payload ''k'' ''N'' ''C'' None ''T''
     = Inr ''00020126230014BR.GOV.BCB.PIX0101k5204000053039865802BR5901N6001C62050501T6304F78E''
   \<and> ''00020126230014BR.GOV.BCB.PIX0101k5204000053039865802BR5901N6001C62050501T6304F78E'' \<noteq> []
   \<and> (\<exists>amt. (amt = [] \<or> (\<exists>v. amt = [(''54'', v)]))
           \<and> ''00020126230014BR.GOV.BCB.PIX0101k5204000053039865802BR5901N6001C62050501T6304F78E''
               = sealed (tlv_join (head_fields ''k'' @ amt
                     @ tail_fields (take 25 ''N'') (take 15 ''C'') (take 25 ''T''))
                   @ ''6304'')
           \<and> map fst (head_fields ''k'' @ amt
                     @ tail_fields (take 25 ''N'') (take 15 ''C'') (take 25 ''T''))
               = [''00'', ''26'', ''52'', ''53''] @ map fst amt @ [''58'', ''59'', ''60'', ''62''])"
proof -
  have nonempty:
    "''00020126230014BR.GOV.BCB.PIX0101k5204000053039865802BR5901N6001C62050501T6304F78E'' \<noteq> []"
    by simp
  show ?thesis
    by (rule conjI [OF example_payload
          conjI [OF nonempty build_pix_payload_field_order [OF example_payload nonempty]]])
qed

text \<open>
  C1 as the specification states it fails: in the payload of a call the field with tag 00
  comes first and the merchant-account field with tag 26 second, not the other way round.
\<close>

theorem build_pix_payload_starts_with_00:
  "build_pix_payload ''k'' ''N'' ''C'' None ''T''
     = Inr (emv_kv ''00'' ''01'' @ emv_kv ''26'' ''0014BR.GOV.BCB.PIX0101k''
            @ ''5204000053039865802BR5901N6001C62050501T6304F78E'')
   \<and> build_pix_payload ''k'' ''N'' ''C'' None ''T''
     \<noteq> Inr (sealed (emv_kv ''26'' ''0014BR.GOV.BCB.PIX0101k'' @ emv_kv ''00'' ''01''
            @ ''5204000053039865802BR5901N6001C62050501T6304''))"
proof -
  have "emv_kv ''00'' ''01'' = ''000201''"
    "emv_kv ''26'' ''0014BR.GOV.BCB.PIX0101k'' = ''26230014BR.GOV.BCB.PIX0101k''"
    by (simp_all add: emv_kv_def fmt_02d_def zfill_def digits10.simps)
  then show ?thesis
    by (simp add: example_payload sealed_def)
qed

text \<open>
  C2: for a payee, the last four characters of the payload are the checksum of the UTF-8
  bytes of all characters before them, a text that ends with \<open>6304\<close>; they are its four
  hexadecimal digits in upper case, zero-padded, so computing the checksum again over all
  but the last four characters gives the last four characters.
\<close>

theorem build_pix_payload_crc_suffix:
  assumes "key \<noteq> []" "merchant_name \<noteq> []" "merchant_city \<noteq> []"
    and "build_pix_payload key merchant_name merchant_city amount txid = Inr p"
  shows "8 \<le> length p
         \<and> drop (length p - 4) p = fmt_04X (crc16_ccitt (utf8_encode (take (length p - 4) p)))
         \<and> drop (length p - 4) p =
             [hex_char (nat (crc16_ccitt (utf8_encode (take (length p - 4) p))) div 4096),
              hex_char (nat (crc16_ccitt (utf8_encode (take (length p - 4) p))) div 256 mod 16),
              hex_char (nat (crc16_ccitt (utf8_encode (take (length p - 4) p))) div 16 mod 16),
              hex_char (nat (crc16_ccitt (utf8_encode (take (length p - 4) p))) mod 16)]
         \<and> set (drop (length p - 4) p) \<subseteq> set ''0123456789ABCDEF''
         \<and> take 4 (drop (length p - 8) p) = ''6304''"
proof -
  from build_pix_payload_Inr [OF assms] obtain body where
    p: "p = sealed (body @ ''6304'')"
    by (metis append.assoc)
  define partial where "partial = body @ ''6304''"
  define crc where "crc = crc16_ccitt (utf8_encode partial)"
  have range: "0 \<le> crc" "crc < 65536"
    using crc16_ccitt_range [of "utf8_encode partial"] by (simp_all add: crc_def)
  have hex: "fmt_04X crc = [hex_char (nat crc div 4096), hex_char (nat crc div 256 mod 16),
                            hex_char (nat crc div 16 mod 16), hex_char (nat crc mod 16)]"
    using range by (rule fmt_04X_16bit)
  have p': "p = partial @ fmt_04X crc"
    by (simp add: p sealed_def partial_def crc_def)
  have len: "length p = length partial + 4"
    by (simp add: p' hex)
  have body: "take (length p - 4) p = partial"
    by (simp add: len) (simp add: p')
  have suffix: "drop (length p - 4) p = fmt_04X crc"
    by (simp add: len) (simp add: p')
  have upper: "set (fmt_04X crc) \<subseteq> set ''0123456789ABCDEF''"
  proof -
    have "nat crc < 65536"
      using range by simp
    then have "nat crc div 4096 < 16"
      by simp
    then show ?thesis
      unfolding hex using hex_char_upper [of "nat crc div 4096"]
        hex_char_upper [of "nat crc div 256 mod 16"] hex_char_upper [of "nat crc div 16 mod 16"]
        hex_char_upper [of "nat crc mod 16"]
      by simp
  qed
  have tag: "take 4 (drop (length p - 8) p) = ''6304''"
  proof -
    have "length p - 8 = length body"
      by (simp add: len partial_def)
    then show ?thesis
      by (simp add: p' partial_def)
  qed
  have "8 \<le> length p"
    by (simp add: len partial_def)
  with body suffix hex upper tag show ?thesis
    by (simp add: crc_def)
qed

theorem build_pix_payload_crc_suffix_witness:
  "''k'' \<noteq> [] \<and> ''N'' \<noteq> [] \<and> ''C'' \<noteq> []
   \<and> build_pix_payload ''k'' ''N'' ''C'' None ''T''
     = Inr ''00020126230014BR.GOV.BCB.PIX0101k5204000053039865802BR5901N6001C62050501T6304F78E''
   \<and> drop (length ''00020126230014BR.GOV.BCB.PIX0101k5204000053039865802BR5901N6001C62050501T6304F78E'' - 4)
        ''00020126230014BR.GOV.BCB.PIX0101k5204000053039865802BR5901N6001C62050501T6304F78E''
     = fmt_04X (crc16_ccitt (utf8_encode
         (take (length ''00020126230014BR.GOV.BCB.PIX0101k5204000053039865802BR5901N6001C62050501T6304F78E'' - 4)
            ''00020126230014BR.GOV.BCB.PIX0101k5204000053039865802BR5901N6001C62050501T6304F78E'')))"
proof -
  have payee: "''k'' \<noteq> []" "''N'' \<noteq> []" "''C'' \<noteq> []"
    by simp_all
  note suffix = build_pix_payload_crc_suffix [OF payee example_payload]
  show ?thesis
    by (intro conjI payee example_payload conjunct1 [OF conjunct2 [OF suffix]])
qed

text \<open>
  C10: for a payee, the value of the merchant-name field is the first \<open>min(25, length)\<close>
  characters of the name and the value of the merchant-city field the first
  \<open>min(15, length)\<close> characters of the city. Neither is empty, so the alternatives
  \<open>LOJA\<close> and \<open>CIDADE\<close> of the code are never taken.
\<close>

theorem build_pix_payload_name_city:
  assumes "key \<noteq> []" "merchant_name \<noteq> []" "merchant_city \<noteq> []"
    and "build_pix_payload key merchant_name merchant_city amount txid = Inr p"
  shows "(\<exists>amt. p = sealed (tlv_join (head_fields key) @ amt
                   @ tlv_join [(''58'', ''BR''),
                               (''59'', take (min 25 (length merchant_name)) merchant_name),
                               (''60'', take (min 15 (length merchant_city)) merchant_city),
                               (''62'', emv_kv ''05'' (take 25 txid))]
                   @ ''6304''))
         \<and> str_or (take 25 merchant_name) ''LOJA'' = take (min 25 (length merchant_name)) merchant_name
         \<and> str_or (take 15 merchant_city) ''CIDADE'' = take (min 15 (length merchant_city)) merchant_city
         \<and> take 25 merchant_name \<noteq> [] \<and> take 15 merchant_city \<noteq> []"
proof -
  from build_pix_payload_Inr [OF assms] obtain amt where
    "p = sealed (tlv_join (head_fields key) @ amt
                 @ tlv_join (tail_fields (take 25 merchant_name) (take 15 merchant_city) (take 25 txid))
                 @ ''6304'')"
    by blast
  then have "\<exists>amt. p = sealed (tlv_join (head_fields key) @ amt
                   @ tlv_join [(''58'', ''BR''),
                               (''59'', take (min 25 (length merchant_name)) merchant_name),
                               (''60'', take (min 15 (length merchant_city)) merchant_city),
                               (''62'', emv_kv ''05'' (take 25 txid))]
                   @ ''6304'')"
    by (intro exI [of _ amt]) (simp add: tail_fields_def take_min_length)
  then show ?thesis
    using assms by (simp add: str_or_take)
qed

theorem build_pix_payload_name_city_witness:
  "''abc@bank'' \<noteq> [] \<and> replicate 40 (CHR ''A'') \<noteq> [] \<and> replicate 20 (CHR ''B'') \<noteq> []
   \<and> str_or (take 25 (replicate 40 (CHR ''A''))) ''LOJA'' = replicate 25 (CHR ''A'')
   \<and> str_or (take 15 (replicate 20 (CHR ''B''))) ''CIDADE'' = replicate 15 (CHR ''B'')
   \<and> (\<exists>amt. build_pix_payload ''abc@bank'' (replicate 40 (CHR ''A'')) (replicate 20 (CHR ''B'')) None ''T''
        = Inr (sealed (tlv_join (head_fields ''abc@bank'') @ amt
                   @ tlv_join [(''58'', ''BR''),
                               (''59'', replicate 25 (CHR ''A'')),
                               (''60'', replicate 15 (CHR ''B'')),
                               (''62'', emv_kv ''05'' ''T'')]
                   @ ''6304'')))"
proof -
  have payee: "''abc@bank'' \<noteq> []" "replicate 40 (CHR ''A'') \<noteq> []" "replicate 20 (CHR ''B'') \<noteq> []"
    by simp_all
  have "amount_field None = Inr []"
    by (simp add: amount_field_def)
  from build_pix_payload_unfold [OF payee this, of "''T''"]
    build_pix_payload_name_city [OF payee build_pix_payload_unfold [OF payee this, of "''T''"]]
  show ?thesis
    by simp
qed

section \<open>Decimal arithmetic within the precision\<close>

lemma ndigits_le_prec: "(ndigits c \<le> prec) = (c < 10 ^ 28)"
  by (simp add: ndigits_def prec_def length_digits10_le)

lemma ndigits_pos: "0 < ndigits c"
  using digits10_nonempty [of c] by (simp add: ndigits_def)

text \<open>A coefficient of at most 28 digits with a small exponent is left as it is.\<close>

lemma dec_fix_exact:
  assumes "c < 10 ^ 28" "- 1000 \<le> e" "e \<le> 1000"
  shows "dec_fix (Decimal s c e) = Inr (Decimal s c e)"
proof (cases "c = 0")
  case True
  with assms show ?thesis
    by (simp add: dec_fix_def Etiny_def Emin_def Emax_def prec_def)
next
  case False
  have "ndigits c \<le> 28"
    using assms(1) ndigits_le_prec [of c] by (simp add: prec_def)
  with False assms(2,3) show ?thesis
    by (simp add: dec_fix_def Let_def Etiny_def Etop_def Emin_def Emax_def prec_def)
qed

lemma dec_mul_exact:
  assumes "dint a * dint b < 10 ^ 28" "- 1000 \<le> dexp a + dexp b" "dexp a + dexp b \<le> 1000"
  shows "dec_mul a b = Inr (Decimal (dsign a \<noteq> dsign b) (dint a * dint b) (dexp a + dexp b))"
  using assms by (simp add: dec_mul_def dec_fix_exact)

lemma dec_sub_exact:
  assumes "dexp a = - 2" "dexp b = - 2" "nat \<bar>signed_coeff a - signed_coeff b\<bar> < 10 ^ 28"
  shows "dec_sub a b =
           Inr (Decimal (if signed_coeff a = signed_coeff b then dsign a \<and> \<not> dsign b
                         else signed_coeff a < signed_coeff b)
                  (nat \<bar>signed_coeff a - signed_coeff b\<bar>) (- 2))"
proof -
  have "signed_coeff (dec_neg b) = - signed_coeff b"
    by (simp add: signed_coeff_def dec_neg_def)
  then show ?thesis
    using assms by (simp add: dec_sub_def dec_add_def Let_def dec_fix_exact dec_neg_def)
qed

text \<open>Quantizing to \<open>MONEY_Q\<close> what has two fractional digits already changes nothing.\<close>

lemma dec_quantize_exact:
  assumes "c < 10 ^ 28"
  shows "dec_quantize (Decimal s c (- 2)) MONEY_Q r = Inr (Decimal s c (- 2))"
proof (cases "c = 0")
  case True
  then show ?thesis
    by (simp add: dec_quantize_def MONEY_Q_def Let_def dec_fix_exact Etiny_def Emin_def Emax_def
        prec_def)
next
  case False
  have nd: "ndigits c \<le> 28"
    using assms ndigits_le_prec [of c] by (simp add: prec_def)
  then show ?thesis
    using False assms
    by (simp add: dec_quantize_def MONEY_Q_def Let_def dec_fix_exact Etiny_def Emin_def Emax_def
        prec_def adjusted_def dec_rescale_def)
qed

text \<open>What \<open>quantize(MONEY_Q)\<close> returns has two fractional digits and the sign of its argument.\<close>

lemma dec_quantize_MONEY_Q:
  assumes "dec_quantize a MONEY_Q r = Inr q"
  shows "dexp q = - 2 \<and> dsign q = dsign a \<and> dint q < 10 ^ 28"
proof (cases a)
  case (Decimal s c e)
  show ?thesis
  proof (cases "c = 0")
    case True
    with assms Decimal show ?thesis
      by (auto simp: dec_quantize_def MONEY_Q_def Let_def dec_fix_exact Etiny_def Emin_def Emax_def
          prec_def)
  next
    case False
    define ans where "ans = dec_rescale a (- 2) (case r of None \<Rightarrow> ctx_rounding | Some m \<Rightarrow> m)"
    have ans: "dexp ans = - 2" "dsign ans = s"
      using False by (simp_all add: ans_def Decimal dec_rescale_def)
    have nd: "ndigits (dint ans) \<le> prec" and q: "dec_fix ans = Inr q"
      using assms False Decimal
      by (simp_all add: dec_quantize_def MONEY_Q_def Let_def ans_def Etiny_def Emin_def Emax_def
          prec_def split: if_splits)
    have small: "dint ans < 10 ^ 28"
      using nd by (simp add: ndigits_le_prec)
    have "dec_fix ans = Inr ans"
      using dec_fix_exact [OF small, of "- 2" "dsign ans"] ans by (cases ans) simp
    with q have "q = ans"
      by simp
    with ans small Decimal show ?thesis
      by simp
  qed
qed

section \<open>Values\<close>

lemma dec_val_cents: "dec_val (Decimal s c (- 2)) = of_int (if s then - int c else int c) / 100"
  by (simp add: dec_val_def signed_coeff_def)

lemma dec_val_amount: "dexp d = - 2 \<Longrightarrow> dec_val d = of_int (signed_coeff d) / 100"
  by (simp add: dec_val_def)

lemma dec_val_pos: "(0 < dec_val a) = (dec_bool a \<and> dec_gt_zero a)"
proof -
  define f :: rat where "f = (if 0 \<le> dexp a then 10 ^ nat (dexp a) else 1 / 10 ^ nat (- dexp a))"
  have f: "0 < f"
    by (simp add: f_def)
  have "(0 < of_int (signed_coeff a) * f) = (0 < signed_coeff a)"
  proof (cases "0 < signed_coeff a")
    case True
    then show ?thesis
      using f by simp
  next
    case False
    then have "of_int (signed_coeff a) * f \<le> 0"
      using f by (intro mult_nonpos_nonneg) simp_all
    with False show ?thesis
      by simp
  qed
  then have "(0 < dec_val a) = (0 < signed_coeff a)"
    by (simp add: dec_val_def f_def)
  then show ?thesis
    by (auto simp: signed_coeff_def dec_bool_def dec_gt_zero_def)
qed

text \<open>Rounding half up to two digits leaves a number of cents as it is.\<close>

lemma round_half_up_2_cents: "round_half_up_2 (of_int n / 100) = of_int n / 100"
proof -
  have a: "\<bar>of_int n / 100 :: rat\<bar> * 100 = of_int \<bar>n\<bar>"
    by simp
  have b: "\<lfloor>(of_int \<bar>n\<bar> :: rat) + 1 / 2\<rfloor> = \<bar>n\<bar>"
    by (rule floor_unique) simp_all
  have "sgn (of_int n / 100 :: rat) * of_int \<bar>n\<bar> = of_int n"
    by (simp add: sgn_if)
  then show ?thesis
    unfolding round_half_up_2_def a b by simp
qed

section \<open>Line totals\<close>

text \<open>
  Within the precision \<open>add_item\<close> computes exactly: the total is the unit price times the
  quantity and the profit the difference of price and cost times the quantity, in cents.
\<close>

lemma int_less_precision: "int x < 10 ^ 28 \<Longrightarrow> x < 10 ^ 28"
  by simp

lemma signed_coeff_mul:
  "signed_coeff (Decimal (dsign a \<noteq> dsign b) (dint a * dint b) e) = signed_coeff a * signed_coeff b"
  by (simp add: signed_coeff_def)

lemma add_item_exact:
  assumes "dexp unit_price = - 2" "dexp unit_cost = - 2"
    and "int (dint unit_price) * \<bar>qty\<bar> < 10 ^ 28"
    and "\<bar>signed_coeff unit_price - signed_coeff unit_cost\<bar> < 10 ^ 28"
    and "\<bar>signed_coeff unit_price - signed_coeff unit_cost\<bar> * \<bar>qty\<bar> < 10 ^ 28"
  shows "\<exists>line_total line_profit.
           add_item qty unit_price unit_cost = Inr (line_total, line_profit)
           \<and> dexp line_total = - 2 \<and> dexp line_profit = - 2
           \<and> signed_coeff line_total = signed_coeff unit_price * qty
           \<and> signed_coeff line_profit = (signed_coeff unit_price - signed_coeff unit_cost) * qty"
proof -
  define q where "q = dec_of_int qty"
  define d where "d = Decimal (if signed_coeff unit_price = signed_coeff unit_cost
                                then dsign unit_price \<and> \<not> dsign unit_cost
                                else signed_coeff unit_price < signed_coeff unit_cost)
                        (nat \<bar>signed_coeff unit_price - signed_coeff unit_cost\<bar>) (- 2)"
  define t where "t = Decimal (dsign unit_price \<noteq> dsign q) (dint unit_price * dint q) (- 2)"
  define p where "p = Decimal (dsign d \<noteq> dsign q) (dint d * dint q) (- 2)"
  have q: "dint q = nat \<bar>qty\<bar>" "dexp q = 0" "dsign q = (qty < 0)"
    by (simp_all add: q_def dec_of_int_def)
  have "int (dint unit_price * dint q) = int (dint unit_price) * \<bar>qty\<bar>"
    by (simp add: q)
  with assms(3) have "int (dint unit_price * dint q) < 10 ^ 28"
    by (simp only:)
  then have tb: "dint unit_price * dint q < 10 ^ 28"
    by (rule int_less_precision)
  have db: "nat \<bar>signed_coeff unit_price - signed_coeff unit_cost\<bar> < 10 ^ 28"
    using assms(4) by (simp add: nat_less_iff)
  have "int (dint d * dint q)
          = \<bar>signed_coeff unit_price - signed_coeff unit_cost\<bar> * \<bar>qty\<bar>"
    by (simp add: q d_def)
  with assms(5) have "int (dint d * dint q) < 10 ^ 28"
    by (simp only:)
  then have pb: "dint d * dint q < 10 ^ 28"
    by (rule int_less_precision)
  have mul_t: "dec_mul unit_price q = Inr t"
    using dec_mul_exact [of unit_price q] tb assms(1) by (simp add: q t_def)
  have quant_t: "dec_quantize t MONEY_Q None = Inr t"
    using dec_quantize_exact [OF tb] by (simp add: t_def)
  have sub: "dec_sub unit_price unit_cost = Inr d"
    using dec_sub_exact [OF assms(1,2) db] by (simp add: d_def)
  have mul_p: "dec_mul d q = Inr p"
    using dec_mul_exact [of d q] pb by (simp add: q p_def d_def)
  have quant_p: "dec_quantize p MONEY_Q None = Inr p"
    using dec_quantize_exact [OF pb] by (simp add: p_def)
  have result: "add_item qty unit_price unit_cost = Inr (t, p)"
    using mul_t quant_t sub mul_p quant_p by (simp add: add_item_def q_def)
  have sq: "signed_coeff q = qty"
    by (simp add: signed_coeff_def q)
  have sd: "signed_coeff d = signed_coeff unit_price - signed_coeff unit_cost"
    by (simp add: d_def) (simp add: signed_coeff_def)
  have vt: "signed_coeff t = signed_coeff unit_price * qty"
    unfolding t_def signed_coeff_mul sq ..
  have vp: "signed_coeff p = (signed_coeff unit_price - signed_coeff unit_cost) * qty"
    unfolding p_def signed_coeff_mul sq sd ..
  show ?thesis
    using result vt vp by (simp add: t_def p_def)
qed

text \<open>
  C5, as the code computes: for a unit price and a unit cost with exactly two fractional
  digits and a positive quantity, as long as the products in cents stay below \<open>10^28\<close>
  (the precision of the decimal context), \<open>add_item\<close> returns price times quantity and
  price minus cost times quantity, each with exactly two fractional digits. Both are
  exact, so they are the products rounded half up, and nothing is rounded on the way.
\<close>

theorem add_item_line_totals:
  assumes "dexp unit_price = - 2" "dexp unit_cost = - 2" "0 < qty"
    and "int (dint unit_price) * qty < 10 ^ 28"
    and "\<bar>signed_coeff unit_price - signed_coeff unit_cost\<bar> * qty < 10 ^ 28"
  shows "\<exists>line_total line_profit.
           add_item qty unit_price unit_cost = Inr (line_total, line_profit)
           \<and> dexp line_total = - 2 \<and> dexp line_profit = - 2
           \<and> dec_val line_total = dec_val unit_price * of_int qty
           \<and> dec_val line_profit = (dec_val unit_price - dec_val unit_cost) * of_int qty
           \<and> dec_val line_total = round_half_up_2 (dec_val unit_price * of_int qty)
           \<and> dec_val line_profit
               = round_half_up_2 ((dec_val unit_price - dec_val unit_cost) * of_int qty)"
proof -
  have "\<bar>signed_coeff unit_price - signed_coeff unit_cost\<bar> * 1
          \<le> \<bar>signed_coeff unit_price - signed_coeff unit_cost\<bar> * qty"
    using assms(3) by (intro mult_left_mono) simp_all
  then have small: "\<bar>signed_coeff unit_price - signed_coeff unit_cost\<bar> < 10 ^ 28"
    using assms(5) by simp
  from add_item_exact [OF assms(1,2) _ small, of qty] assms(3,4,5)
  obtain line_total line_profit where
    r: "add_item qty unit_price unit_cost = Inr (line_total, line_profit)"
    and e: "dexp line_total = - 2" "dexp line_profit = - 2"
    and t: "signed_coeff line_total = signed_coeff unit_price * qty"
    and p: "signed_coeff line_profit = (signed_coeff unit_price - signed_coeff unit_cost) * qty"
    by auto
  have vt: "dec_val line_total = of_int (signed_coeff unit_price * qty) / 100"
    using e t by (simp add: dec_val_amount)
  have vp: "dec_val line_profit
              = of_int ((signed_coeff unit_price - signed_coeff unit_cost) * qty) / 100"
    using e p by (simp add: dec_val_amount)
  have xt: "dec_val unit_price * of_int qty = of_int (signed_coeff unit_price * qty) / 100"
    using assms(1) by (simp add: dec_val_amount)
  have xp: "(dec_val unit_price - dec_val unit_cost) * of_int qty
              = of_int ((signed_coeff unit_price - signed_coeff unit_cost) * qty) / 100"
    using assms(1,2) by (simp add: dec_val_amount diff_divide_distrib)
  have c1: "dec_val line_total = dec_val unit_price * of_int qty"
    by (simp only: vt xt)
  have c2: "dec_val line_profit = (dec_val unit_price - dec_val unit_cost) * of_int qty"
    by (simp only: vp xp)
  have c3: "dec_val line_total = round_half_up_2 (dec_val unit_price * of_int qty)"
    by (simp only: vt xt round_half_up_2_cents)
  have c4: "dec_val line_profit
              = round_half_up_2 ((dec_val unit_price - dec_val unit_cost) * of_int qty)"
    by (simp only: vp xp round_half_up_2_cents)
  show ?thesis
    using r e c1 c2 c3 c4 by blast
qed

theorem add_item_line_totals_witness:
  "dexp (Decimal False 1999 (- 2)) = - 2 \<and> dexp (Decimal False 1250 (- 2)) = - 2 \<and> (0::int) < 3
   \<and> add_item 3 (Decimal False 1999 (- 2)) (Decimal False 1250 (- 2))
       = Inr (Decimal False 5997 (- 2), Decimal False 2247 (- 2))
   \<and> dec_val (Decimal False 5997 (- 2)) = dec_val (Decimal False 1999 (- 2)) * of_int 3
   \<and> dec_val (Decimal False 2247 (- 2))
       = (dec_val (Decimal False 1999 (- 2)) - dec_val (Decimal False 1250 (- 2))) * of_int 3"
proof -
  have h: "dexp (Decimal False 1999 (- 2)) = - 2" "dexp (Decimal False 1250 (- 2)) = - 2" "(0::int) < 3"
    "int (dint (Decimal False 1999 (- 2))) * 3 < 10 ^ 28"
    "\<bar>signed_coeff (Decimal False 1999 (- 2)) - signed_coeff (Decimal False 1250 (- 2))\<bar> * 3 < 10 ^ 28"
    by (simp_all add: signed_coeff_def)
  from add_item_line_totals [OF h] obtain t p where
    r: "add_item 3 (Decimal False 1999 (- 2)) (Decimal False 1250 (- 2)) = Inr (t, p)"
    and e: "dexp t = - 2" "dexp p = - 2"
    and v: "dec_val t = dec_val (Decimal False 1999 (- 2)) * of_int 3"
      "dec_val p = (dec_val (Decimal False 1999 (- 2)) - dec_val (Decimal False 1250 (- 2))) * of_int 3"
    by blast
  have "signed_coeff t = 5997" "signed_coeff p = 2247"
    using v e by (simp_all add: dec_val_amount dec_val_cents)
  then have "t = Decimal False 5997 (- 2)" "p = Decimal False 2247 (- 2)"
    using e by (cases t; cases p; simp add: signed_coeff_def split: if_splits)+
  with r v show ?thesis
    by simp
qed

text \<open>
  C5 as the specification states it fails for a quantity beyond the precision: with the
  unit price 1.00 and the quantity \<open>10^27\<close> the total would need 30 digits, and
  \<open>quantize\<close> raises InvalidOperation.
\<close>

theorem add_item_beyond_precision:
  "add_item (10 ^ 27) (Decimal False 100 (- 2)) (Decimal False 0 (- 2)) = Inl InvalidOperation"
  by (simp add: add_item_def dec_mul_def dec_of_int_def dec_fix_def Let_def ndigits_def
      digits10.simps prec_def Etop_def Etiny_def Emax_def Emin_def round_coeff_def ctx_rounding_def
      dec_quantize_def MONEY_Q_def adjusted_def)

text \<open>
  C6, as the code behaves: \<open>add_item\<close> does not look at the sign of the quantity. For a
  quantity of zero or less (and products within the precision) it returns the same
  products as for a positive one, zero or of the opposite sign, and no error.
\<close>

theorem add_item_no_quantity_check:
  assumes "dexp unit_price = - 2" "dexp unit_cost = - 2" "qty \<le> 0"
    and "int (dint unit_price) * \<bar>qty\<bar> < 10 ^ 28"
    and "\<bar>signed_coeff unit_price - signed_coeff unit_cost\<bar> < 10 ^ 28"
    and "\<bar>signed_coeff unit_price - signed_coeff unit_cost\<bar> * \<bar>qty\<bar> < 10 ^ 28"
  shows "\<exists>line_total line_profit.
           add_item qty unit_price unit_cost = Inr (line_total, line_profit)
           \<and> dexp line_total = - 2 \<and> dexp line_profit = - 2
           \<and> dec_val line_total = dec_val unit_price * of_int qty
           \<and> dec_val line_profit = (dec_val unit_price - dec_val unit_cost) * of_int qty"
proof -
  from add_item_exact [OF assms(1,2,4,5,6)]
  obtain line_total line_profit where
    r: "add_item qty unit_price unit_cost = Inr (line_total, line_profit)"
    and e: "dexp line_total = - 2" "dexp line_profit = - 2"
    and t: "signed_coeff line_total = signed_coeff unit_price * qty"
    and p: "signed_coeff line_profit = (signed_coeff unit_price - signed_coeff unit_cost) * qty"
    by auto
  have "dec_val line_total = dec_val unit_price * of_int qty"
    using e t assms(1) by (simp add: dec_val_amount)
  moreover have "dec_val line_profit = (dec_val unit_price - dec_val unit_cost) * of_int qty"
    using e p assms(1,2) by (simp add: dec_val_amount diff_divide_distrib)
  ultimately show ?thesis
    using r e by simp
qed

theorem add_item_no_quantity_check_witness:
  "dexp (Decimal False 1999 (- 2)) = - 2 \<and> dexp (Decimal False 1250 (- 2)) = - 2 \<and> (- 2::int) \<le> 0
   \<and> add_item (- 2) (Decimal False 1999 (- 2)) (Decimal False 1250 (- 2))
       = Inr (Decimal True 3998 (- 2), Decimal True 1498 (- 2))
   \<and> dec_val (Decimal True 3998 (- 2)) = dec_val (Decimal False 1999 (- 2)) * of_int (- 2)
   \<and> dec_val (Decimal True 1498 (- 2))
       = (dec_val (Decimal False 1999 (- 2)) - dec_val (Decimal False 1250 (- 2))) * of_int (- 2)"
proof -
  have h: "dexp (Decimal False 1999 (- 2)) = - 2" "dexp (Decimal False 1250 (- 2)) = - 2" "(- 2::int) \<le> 0"
    "int (dint (Decimal False 1999 (- 2))) * \<bar>- 2\<bar> < 10 ^ 28"
    "\<bar>signed_coeff (Decimal False 1999 (- 2)) - signed_coeff (Decimal False 1250 (- 2))\<bar> < 10 ^ 28"
    "\<bar>signed_coeff (Decimal False 1999 (- 2)) - signed_coeff (Decimal False 1250 (- 2))\<bar> * \<bar>- 2\<bar> < 10 ^ 28"
    by (simp_all add: signed_coeff_def)
  from add_item_no_quantity_check [OF h] obtain t p where
    r: "add_item (- 2) (Decimal False 1999 (- 2)) (Decimal False 1250 (- 2)) = Inr (t, p)"
    and e: "dexp t = - 2" "dexp p = - 2"
    and v: "dec_val t = dec_val (Decimal False 1999 (- 2)) * of_int (- 2)"
      "dec_val p = (dec_val (Decimal False 1999 (- 2)) - dec_val (Decimal False 1250 (- 2))) * of_int (- 2)"
    by blast
  have "signed_coeff t = - 3998" "signed_coeff p = - 1498"
    using v e by (simp_all add: dec_val_amount dec_val_cents)
  then have "t = Decimal True 3998 (- 2)" "p = Decimal True 1498 (- 2)"
    using e by (cases t; cases p; simp add: signed_coeff_def split: if_splits)+
  with r v show ?thesis
    by simp
qed

text \<open>
  C6 as the specification states it fails: with the quantity 0 the totals 0.00 and 0.00
  are returned, where the specification wants an InvalidQuantity error.
\<close>

theorem add_item_zero_quantity:
  "add_item 0 (Decimal False 1999 (- 2)) (Decimal False 1250 (- 2))
     = Inr (Decimal False 0 (- 2), Decimal False 0 (- 2))"
  by (simp add: add_item_def dec_mul_def dec_of_int_def dec_fix_def Let_def
      prec_def Etop_def Etiny_def Emax_def Emin_def dec_sub_def dec_add_def dec_neg_def
      signed_coeff_def ndigits_def digits10.simps dec_quantize_def MONEY_Q_def)

section \<open>The sale price\<close>

text \<open>
  C4 fails on the code: with the cost 0.50 and the margin 1 the exact price is 0.505,
  which rounded half up is 0.51; \<open>upsert\<close> calls \<open>quantize\<close> with no rounding argument, so
  the context's half-even rounding applies and the sale price is 0.50. With the argument
  \<open>rounding=ROUND_HALF_UP\<close>, which \<open>money\<close> passes, the same product gives 0.51.
\<close>

theorem upsert_sale_price_half_even:
  "upsert_sale_price (Decimal False 50 (- 2)) (Decimal False 1 0) = Inr (Decimal False 50 (- 2))
   \<and> round_half_up_2 (dec_val (Decimal False 50 (- 2)) * (1 + dec_val (Decimal False 1 0) / 100))
       = 51 / 100
   \<and> dec_quantize (Decimal False 5050 (- 4)) MONEY_Q (Some ROUND_HALF_UP)
       = Inr (Decimal False 51 (- 2))"
proof -
  have d: "dec_div (Decimal False 1 0) (Decimal False 100 0) = Inr (Decimal False 1 (- 2))"
    by (simp add: dec_div_def Let_def ndigits_def digits10.simps prec_def div_ideal.simps
        dec_fix_def Etop_def Etiny_def Emax_def Emin_def)
  have a: "dec_add (Decimal False 10 (- 1)) (Decimal False 1 (- 2)) = Inr (Decimal False 101 (- 2))"
    by (simp add: dec_add_def Let_def signed_coeff_def dec_fix_def ndigits_def digits10.simps
        prec_def Etop_def Etiny_def Emax_def Emin_def)
  have m: "dec_mul (Decimal False 50 (- 2)) (Decimal False 101 (- 2)) = Inr (Decimal False 5050 (- 4))"
    by (simp add: dec_mul_def dec_fix_def Let_def ndigits_def digits10.simps
        prec_def Etop_def Etiny_def Emax_def Emin_def)
  have q: "dec_quantize (Decimal False 5050 (- 4)) MONEY_Q None = Inr (Decimal False 50 (- 2))"
    by (simp add: dec_quantize_def MONEY_Q_def Let_def adjusted_def ndigits_def digits10.simps
        dec_rescale_def round_coeff_def ctx_rounding_def dec_fix_def
        prec_def Etop_def Etiny_def Emax_def Emin_def)
  have r: "round_half_up_2 (dec_val (Decimal False 50 (- 2)) * (1 + dec_val (Decimal False 1 0) / 100))
             = 51 / 100"
    by (simp add: round_half_up_2_def dec_val_def signed_coeff_def)
  have u: "dec_quantize (Decimal False 5050 (- 4)) MONEY_Q (Some ROUND_HALF_UP)
             = Inr (Decimal False 51 (- 2))"
    by (simp add: dec_quantize_def MONEY_Q_def Let_def adjusted_def ndigits_def digits10.simps
        dec_rescale_def round_coeff_def dec_fix_def
        prec_def Etop_def Etiny_def Emax_def Emin_def)
  show ?thesis
    using d a m q r u by (simp add: upsert_sale_price_def)
qed

section \<open>The amount field\<close>

text \<open>
  The text of a non-negative Decimal with two fractional digits: the digits of the whole
  part, a point, and the two digits of the cents. No exponent, separator or prefix.
\<close>

lemma dec_str_cents:
  "dec_str (Decimal False c (- 2))
     = digits10 (c div 100) @ ''.'' @ [digit_char (c div 10 mod 10), digit_char (c mod 10)]"
proof -
  consider "c < 10" | "10 \<le> c" "c < 100" | "100 \<le> c"
    by linarith
  then show ?thesis
  proof cases
    case 1
    then show ?thesis
      by (simp add: dec_str_def Let_def digits10_small)
  next
    case 2
    then have "c div 10 < 10" "c div 100 = 0"
      by simp_all
    with 2 show ?thesis
      by (simp add: dec_str_def Let_def digits10_step digits10_small)
  next
    case 3
    then have a: "10 \<le> c" "10 \<le> c div 10"
      by simp_all
    have b: "c div 10 div 10 = c div 100"
      by (simp add: div_mult2_eq [symmetric])
    have ds: "digits10 c = digits10 (c div 100) @ [digit_char (c div 10 mod 10), digit_char (c mod 10)]"
      using a b by (simp add: digits10_step [of c] digits10_step [of "c div 10"])
    have pos: "0 < length (digits10 (c div 100))"
      using digits10_nonempty [of "c div 100"] by simp
    show ?thesis
      using pos by (simp add: dec_str_def Let_def ds)
  qed
qed

lemma round_coeff_near:
  "2 * \<bar>int (round_coeff mode c k) * 10 ^ k - int c\<bar> \<le> 10 ^ k"
proof -
  define q where "q = c div 10 ^ k"
  define r where "r = c mod 10 ^ k"
  have "c = q * 10 ^ k + r"
    unfolding q_def r_def by (rule div_mult_mod_eq [symmetric])
  then have c: "int c = int q * 10 ^ k + int r"
    using arg_cong [of c "q * 10 ^ k + r" int] by simp
  have "r < 10 ^ k"
    by (simp add: r_def)
  then have r: "int r < 10 ^ k"
    using of_nat_less_iff [of r "10 ^ k", where ?'a = int] by simp
  have up: "2 * \<bar>int (q + 1) * 10 ^ k - int c\<bar> \<le> 10 ^ k" if "10 ^ k \<le> 2 * r"
  proof -
    have "10 ^ k \<le> 2 * int r"
      using that of_nat_le_iff [of "10 ^ k" "2 * r", where ?'a = int] by simp
    then show ?thesis
      using r by (simp add: c algebra_simps)
  qed
  have down: "2 * \<bar>int q * 10 ^ k - int c\<bar> \<le> 10 ^ k" if "2 * r \<le> 10 ^ k"
  proof -
    have "2 * int r \<le> 10 ^ k"
      using that of_nat_le_iff [of "2 * r" "10 ^ k", where ?'a = int] by simp
    then show ?thesis
      by (simp add: c)
  qed
  have "(round_coeff mode c k = q + 1 \<and> 10 ^ k \<le> 2 * r)
        \<or> (round_coeff mode c k = q \<and> 2 * r \<le> 10 ^ k)"
    by (cases mode) (auto simp: round_coeff_def Let_def q_def r_def)
  then show ?thesis
  proof (elim disjE conjE)
    assume "round_coeff mode c k = q + 1" "10 ^ k \<le> 2 * r"
    then show ?thesis
      using up by (simp only:)
  next
    assume "round_coeff mode c k = q" "2 * r \<le> 10 ^ k"
    then show ?thesis
      using down by (simp only:)
  qed
qed

text \<open>\<open>quantize(MONEY_Q)\<close> returns a nearest number of cents.\<close>

lemma dec_quantize_nearest:
  assumes "dec_quantize a MONEY_Q r = Inr q"
  shows "\<bar>dec_val q - dec_val a\<bar> \<le> 1 / 200"
proof (cases a)
  case (Decimal s c e)
  define mode where "mode = (case r of None \<Rightarrow> ctx_rounding | Some m \<Rightarrow> m)"
  show ?thesis
  proof (cases "c = 0")
    case True
    with assms Decimal have "q = Decimal s 0 (- 2)"
      by (auto simp: dec_quantize_def MONEY_Q_def Let_def dec_fix_exact Etiny_def Emin_def Emax_def
          prec_def)
    with True Decimal show ?thesis
      by (simp add: dec_val_def signed_coeff_def)
  next
    case False
    define ans where "ans = dec_rescale a (- 2) mode"
    have nd: "ndigits (dint ans) \<le> prec" and fixed: "dec_fix ans = Inr q"
      using assms False Decimal
      by (simp_all add: dec_quantize_def MONEY_Q_def Let_def ans_def mode_def Etiny_def Emin_def
          Emax_def prec_def split: if_splits)
    have e: "dexp ans = - 2"
      using False by (simp add: ans_def Decimal dec_rescale_def)
    have "dec_fix ans = Inr ans"
      using dec_fix_exact [of "dint ans" "- 2" "dsign ans"] nd e
      by (cases ans) (simp add: ndigits_le_prec)
    with fixed have q: "q = ans"
      by simp
    define sg :: rat where "sg = (if s then - 1 else 1)"
    have sg: "\<bar>sg\<bar> = 1"
      by (simp add: sg_def)
    show ?thesis
    proof (cases "- 2 \<le> e")
      case True
      then have ans: "ans = Decimal s (c * 10 ^ nat (e + 2)) (- 2)"
        using False by (simp add: ans_def Decimal dec_rescale_def)
      have "dec_val ans = dec_val a"
      proof (cases "0 \<le> e")
        case True
        then have "nat (e + 2) = nat e + 2"
          by simp
        then show ?thesis
          using True by (simp add: ans Decimal dec_val_def signed_coeff_def power_add)
      next
        case neg: False
        with True consider "e = - 1" | "e = - 2"
          by linarith
        then show ?thesis
          by cases (simp_all add: ans Decimal dec_val_def signed_coeff_def)
      qed
      then show ?thesis
        by (simp add: q)
    next
      case neg: False
      define k where "k = nat (- 2 - e)"
      have ans: "ans = Decimal s (round_coeff mode c k) (- 2)"
        using False neg by (simp add: ans_def Decimal dec_rescale_def k_def)
      have ek: "nat (- e) = k + 2"
        using neg by (simp add: k_def)
      have va: "dec_val a = sg * of_nat c / (10 ^ k * 100)"
        using neg by (simp add: Decimal dec_val_def signed_coeff_def ek power_add sg_def)
      have vq: "dec_val ans = sg * of_nat (round_coeff mode c k) / 100"
        by (simp add: ans dec_val_def signed_coeff_def sg_def)
      have "dec_val ans - dec_val a
              = sg * (of_int (int (round_coeff mode c k) * 10 ^ k - int c)) / (10 ^ k * 100)"
        by (simp add: va vq field_simps)
      then have "\<bar>dec_val ans - dec_val a\<bar>
              = of_int \<bar>int (round_coeff mode c k) * 10 ^ k - int c\<bar> / (10 ^ k * 100)"
        by (simp add: abs_mult sg)
      also have "\<dots> \<le> (10 ^ k / 2) / (10 ^ k * 100)"
      proof -
        have "of_int (2 * \<bar>int (round_coeff mode c k) * 10 ^ k - int c\<bar>) \<le> (of_int (10 ^ k) :: rat)"
          using round_coeff_near [of mode c k] by (simp only: of_int_le_iff)
        then have "(of_int \<bar>int (round_coeff mode c k) * 10 ^ k - int c\<bar> :: rat) \<le> 10 ^ k / 2"
          by simp
        then show ?thesis
          by (intro divide_right_mono) simp_all
      qed
      also have "\<dots> = 1 / 200"
        by simp
      finally show ?thesis
        by (simp add: q)
    qed
  qed
qed

lemma example_partial_amount:
  "tlv_join (head_fields ''k'' @ [(''54'', ''12.50'')] @ tail_fields ''N'' ''C'' ''T'') @ ''6304''
     = ''00020126230014BR.GOV.BCB.PIX0101k520400005303986540512.505802BR5901N6001C62050501T6304''"
  by (simp add: tlv_join_def head_fields_def tail_fields_def emv_kv_def fmt_02d_def zfill_def
      digits10.simps)

lemma example_sealed_amount:
  "sealed ''00020126230014BR.GOV.BCB.PIX0101k520400005303986540512.505802BR5901N6001C62050501T6304''
     = ''00020126230014BR.GOV.BCB.PIX0101k520400005303986540512.505802BR5901N6001C62050501T6304BF52''"
  by (simp add: sealed_def utf8_encode_def utf8_char_def crc16_ccitt_def crc_byte_unfold
      crc_step_def Let_def fmt_04X_def digits16.simps zfill_def)

lemma example_amount_field:
  "amount_field (Some (Decimal False 1250 (- 2))) = Inr (emv_kv ''54'' ''12.50'')"
proof -
  have "dec_quantize (Decimal False 1250 (- 2)) MONEY_Q None = Inr (Decimal False 1250 (- 2))"
    by (rule dec_quantize_exact) simp
  moreover have "dec_str (Decimal False 1250 (- 2)) = ''12.50''"
    by (simp add: dec_str_cents digits10.simps)
  ultimately show ?thesis
    by (simp add: amount_field_def dec_bool_def dec_gt_zero_def)
qed

lemma example_payload_amount:
  "build_pix_payload ''k'' ''N'' ''C'' (Some (Decimal False 1250 (- 2))) ''T''
     = Inr ''00020126230014BR.GOV.BCB.PIX0101k520400005303986540512.505802BR5901N6001C62050501T6304BF52''"
proof -
  have "build_pix_payload ''k'' ''N'' ''C'' (Some (Decimal False 1250 (- 2))) ''T''
     = Inr (sealed (tlv_join (head_fields ''k'') @ emv_kv ''54'' ''12.50''
           @ tlv_join (tail_fields (take 25 ''N'') (take 15 ''C'') (take 25 ''T'')) @ ''6304''))"
    by (intro build_pix_payload_unfold example_amount_field) simp_all
  also have "tlv_join (head_fields ''k'') @ emv_kv ''54'' ''12.50''
           @ tlv_join (tail_fields (take 25 ''N'') (take 15 ''C'') (take 25 ''T'')) @ ''6304''
     = tlv_join (head_fields ''k'' @ [(''54'', ''12.50'')] @ tail_fields ''N'' ''C'' ''T'') @ ''6304''"
    by (simp add: tlv_join_append tlv_join_Cons)
  finally show ?thesis
    by (simp only: example_partial_amount example_sealed_amount)
qed

text \<open>
  For a payee the call returns a payload unless the amount is positive and \<open>quantize\<close>
  raises.
\<close>

lemma build_pix_payload_returns:
  assumes "key \<noteq> []" "merchant_name \<noteq> []" "merchant_city \<noteq> []"
  shows "(\<exists>p. build_pix_payload key merchant_name merchant_city amount txid = Inr p)
         = (\<forall>a. amount = Some a \<and> 0 < dec_val a \<longrightarrow> (\<exists>q. dec_quantize a MONEY_Q None = Inr q))"
proof (cases "amount_field amount")
  case (Inl e)
  then have "\<exists>a. amount = Some a \<and> 0 < dec_val a \<and> dec_quantize a MONEY_Q None = Inl e"
    by (auto simp: amount_field_def dec_val_pos split: option.splits if_splits sum.splits)
  then show ?thesis
    using build_pix_payload_error [OF assms Inl, of txid] by auto
next
  case (Inr amt)
  then have "\<forall>a. amount = Some a \<and> 0 < dec_val a \<longrightarrow> (\<exists>q. dec_quantize a MONEY_Q None = Inr q)"
    by (auto simp: amount_field_def dec_val_pos split: option.splits if_splits sum.splits)
  then show ?thesis
    using build_pix_payload_unfold [OF assms Inr, of txid] by auto
qed

text \<open>
  C8: in the payload returned for a payee, an amount that is supplied and greater than
  zero gives a field with tag 54 between the fields with tags 53 and 58; its value is the
  text of \<open>amount.quantize(MONEY_Q)\<close>, a number of cents nearest to the amount, written
  as the digits of the whole part, a point and two digits. Without an amount, or with one that is zero or negative, the field with tag 53
  is followed at once by the field with tag 58, and no field has the tag 54.
\<close>

theorem build_pix_payload_amount_field:
  assumes "key \<noteq> []" "merchant_name \<noteq> []" "merchant_city \<noteq> []"
    and "build_pix_payload key merchant_name merchant_city amount txid = Inr p"
  shows "(case amount of
            None \<Rightarrow>
              p = sealed (tlv_join (head_fields key
                    @ tail_fields (take 25 merchant_name) (take 15 merchant_city) (take 25 txid))
                  @ ''6304'')
          | Some a \<Rightarrow>
              if 0 < dec_val a
              then \<exists>q. dec_quantize a MONEY_Q None = Inr q
                     \<and> p = sealed (tlv_join (head_fields key @ [(''54'', dec_str q)]
                           @ tail_fields (take 25 merchant_name) (take 15 merchant_city) (take 25 txid))
                         @ ''6304'')
                     \<and> dec_str q = digits10 (dint q div 100) @ ''.''
                           @ [digit_char (dint q div 10 mod 10), digit_char (dint q mod 10)]
                     \<and> dexp q = - 2 \<and> \<bar>dec_val q - dec_val a\<bar> \<le> 1 / 200
              else p = sealed (tlv_join (head_fields key
                    @ tail_fields (take 25 merchant_name) (take 15 merchant_city) (take 25 txid))
                  @ ''6304''))
         \<and> ''54'' \<notin> set (map fst (head_fields key
                    @ tail_fields (take 25 merchant_name) (take 15 merchant_city) (take 25 txid)))"
proof -
  from build_pix_payload_Inr [OF assms] obtain amt where
    amt: "amount_field amount = Inr amt"
    and p: "p = sealed (tlv_join (head_fields key) @ amt
                 @ tlv_join (tail_fields (take 25 merchant_name) (take 15 merchant_city) (take 25 txid))
                 @ ''6304'')"
    by blast
  have tags: "''54'' \<notin> set (map fst (head_fields key
                    @ tail_fields (take 25 merchant_name) (take 15 merchant_city) (take 25 txid)))"
    by (simp add: head_fields_def tail_fields_def)
  show ?thesis
  proof (cases amount)
    case None
    with amt have "amt = []"
      by (simp add: amount_field_def)
    with p None tags show ?thesis
      by (simp add: tlv_join_append)
  next
    case (Some a)
    show ?thesis
    proof (cases "0 < dec_val a")
      case False
      with amt Some have "amt = []"
        by (auto simp: amount_field_def dec_val_pos split: if_splits)
      with p Some False tags show ?thesis
        by (simp add: tlv_join_append)
    next
      case True
      then have pos: "dec_bool a" "dec_gt_zero a"
        by (simp_all add: dec_val_pos)
      with amt Some obtain q where
        q: "dec_quantize a MONEY_Q None = Inr q" and a: "amt = emv_kv ''54'' (dec_str q)"
        by (auto simp: amount_field_def split: sum.splits)
      from dec_quantize_MONEY_Q [OF q] pos have "q = Decimal False (dint q) (- 2)"
        by (cases q) (simp add: dec_gt_zero_def)
      then have str: "dec_str q = digits10 (dint q div 100) @ ''.''
                           @ [digit_char (dint q div 10 mod 10), digit_char (dint q mod 10)]"
        using dec_str_cents [of "dint q"] by simp
      have "p = sealed (tlv_join (head_fields key @ [(''54'', dec_str q)]
                           @ tail_fields (take 25 merchant_name) (take 15 merchant_city) (take 25 txid))
                         @ ''6304'')"
        using p a by (simp add: tlv_join_append tlv_join_Cons)
      with q str dec_quantize_MONEY_Q [OF q] dec_quantize_nearest [OF q]
      have "\<exists>q. dec_quantize a MONEY_Q None = Inr q
                     \<and> p = sealed (tlv_join (head_fields key @ [(''54'', dec_str q)]
                           @ tail_fields (take 25 merchant_name) (take 15 merchant_city) (take 25 txid))
                         @ ''6304'')
                     \<and> dec_str q = digits10 (dint q div 100) @ ''.''
                           @ [digit_char (dint q div 10 mod 10), digit_char (dint q mod 10)]
                     \<and> dexp q = - 2 \<and> \<bar>dec_val q - dec_val a\<bar> \<le> 1 / 200"
        by blast
      with Some True tags show ?thesis
        by simp
    qed
  qed
qed

theorem build_pix_payload_amount_field_witness:
  "''k'' \<noteq> [] \<and> ''N'' \<noteq> [] \<and> ''C'' \<noteq> []
   \<and> build_pix_payload ''k'' ''N'' ''C'' (Some (Decimal False 1250 (- 2))) ''T''
       = Inr ''00020126230014BR.GOV.BCB.PIX0101k520400005303986540512.505802BR5901N6001C62050501T6304BF52''
   \<and> 0 < dec_val (Decimal False 1250 (- 2))
   \<and> (\<exists>q. dec_quantize (Decimal False 1250 (- 2)) MONEY_Q None = Inr q
          \<and> ''00020126230014BR.GOV.BCB.PIX0101k520400005303986540512.505802BR5901N6001C62050501T6304BF52''
             = sealed (tlv_join (head_fields ''k'' @ [(''54'', dec_str q)]
                           @ tail_fields (take 25 ''N'') (take 15 ''C'') (take 25 ''T''))
                         @ ''6304''))
   \<and> ''54'' \<notin> set (map fst (head_fields ''k''
                    @ tail_fields (take 25 ''N'') (take 15 ''C'') (take 25 ''T'')))"
proof -
  have payee: "''k'' \<noteq> []" "''N'' \<noteq> []" "''C'' \<noteq> []"
    by simp_all
  have pos: "0 < dec_val (Decimal False 1250 (- 2))"
    by (simp add: dec_val_cents)
  from build_pix_payload_amount_field [OF payee example_payload_amount] pos
  have "(\<exists>q. dec_quantize (Decimal False 1250 (- 2)) MONEY_Q None = Inr q
          \<and> ''00020126230014BR.GOV.BCB.PIX0101k520400005303986540512.505802BR5901N6001C62050501T6304BF52''
             = sealed (tlv_join (head_fields ''k'' @ [(''54'', dec_str q)]
                           @ tail_fields (take 25 ''N'') (take 15 ''C'') (take 25 ''T''))
                         @ ''6304''))
   \<and> ''54'' \<notin> set (map fst (head_fields ''k''
                    @ tail_fields (take 25 ''N'') (take 15 ''C'') (take 25 ''T'')))"
    by (simp only: option.case if_True) blast
  with payee pos example_payload_amount show ?thesis
    by blast
qed

section \<open>Reading amounts\<close>

lemma set_dropWhile_keep: "x \<in> set xs \<Longrightarrow> \<not> P x \<Longrightarrow> x \<in> set (dropWhile P xs)"
  by (induction xs) auto

lemma set_strip_keep: "x \<in> set s \<Longrightarrow> \<not> is_space x \<Longrightarrow> x \<in> set (strip s)"
  by (simp add: strip_def set_dropWhile_keep)

lemma strip_spaces_around:
  assumes "list_all is_space l" "list_all is_space r"
  shows "strip (l @ t @ r) = strip t"
proof -
  have l: "dropWhile is_space (l @ t @ r) = dropWhile is_space (t @ r)"
    using assms(1) by (intro dropWhile_append2) (simp add: list_all_iff)
  show ?thesis
  proof (cases "list_all is_space t")
    case True
    then have a: "dropWhile is_space (l @ t @ r) = []" and b: "dropWhile is_space t = []"
      using assms by (auto simp: list_all_iff)
    show ?thesis
      by (simp add: strip_def a b)
  next
    case False
    then obtain x where "x \<in> set t" "\<not> is_space x"
      by (auto simp: list_all_iff)
    then have "dropWhile is_space (t @ r) = dropWhile is_space t @ r"
      by (rule dropWhile_append1)
    moreover have "dropWhile is_space (rev r @ ys) = dropWhile is_space ys" for ys
      using assms(2) by (intro dropWhile_append2) (simp add: list_all_iff)
    ultimately show ?thesis
      using l by (simp add: strip_def)
  qed
qed

lemma strip_id:
  assumes "s \<noteq> []" "\<not> is_space (hd s)" "\<not> is_space (last s)"
  shows "strip s = s"
proof -
  have "dropWhile is_space s = s"
    using assms(1,2) by (cases s) simp_all
  moreover have "dropWhile is_space (rev s) = rev s"
    using assms(1,3) by (cases "rev s") (simp_all add: last_rev [symmetric] del: last_rev)
  ultimately show ?thesis
    by (simp add: strip_def)
qed

lemma replace_char_spaces: "list_all is_space l \<Longrightarrow> replace_char (CHR '','') (CHR ''.'') l = l"
proof -
  assume "list_all is_space l"
  moreover have "\<not> is_space (CHR '','')"
    by (simp add: is_space_def)
  ultimately have "\<forall>c\<in>set l. c \<noteq> CHR '',''"
    by (auto simp: list_all_iff)
  then show ?thesis
    by (simp add: replace_char_def map_idI)
qed

lemma replace_char_digits: "list_all is_digit ds \<Longrightarrow> replace_char (CHR '','') (CHR ''.'') ds = ds"
proof -
  assume "list_all is_digit ds"
  moreover have "\<not> is_digit (CHR '','')"
    by (simp add: is_digit_def)
  ultimately have "\<forall>c\<in>set ds. c \<noteq> CHR '',''"
    by (auto simp: list_all_iff)
  then show ?thesis
    by (simp add: replace_char_def map_idI)
qed

lemma replace_char_append:
  "replace_char a b (xs @ ys) = replace_char a b xs @ replace_char a b ys"
  by (simp add: replace_char_def)

lemma replace_char_idem:
  "replace_char (CHR '','') (CHR ''.'') (replace_char (CHR '','') (CHR ''.'') t)
     = replace_char (CHR '','') (CHR ''.'') t"
  by (simp add: replace_char_def)

lemma digit_facts:
  assumes "is_digit c"
  shows "\<not> is_space c" "c \<noteq> CHR ''_''" "c \<noteq> CHR ''-''" "c \<noteq> CHR ''+''" "c \<noteq> CHR ''.''"
  using assms by (auto simp: is_digit_def is_space_def Let_def)

text \<open>Digits, a point and digits are read as the number they write.\<close>

lemma Decimal_of_str_plain:
  assumes "ds \<noteq> []" "list_all is_digit ds" "list_all is_digit fs"
  shows "Decimal_of_str (ds @ ''.'' @ fs)
           = Inr (Finite (Decimal False (digits_val (ds @ fs)) (- int (length fs))))"
proof -
  define s where "s = ds @ ''.'' @ fs"
  have d: "\<forall>c\<in>set ds. is_digit c" and f: "\<forall>c\<in>set fs. is_digit c"
    using assms by (simp_all add: list_all_iff)
  have hd: "hd s = hd ds" "is_digit (hd ds)"
    using assms(1) d by (simp_all add: s_def)
  have last: "\<not> is_space (last s)"
    using f digit_facts(1) by (cases "fs = []") (simp_all add: s_def is_space_def)
  have strip: "strip s = s"
    using hd digit_facts(1) [of "hd ds"] last by (intro strip_id) (simp_all add: s_def)
  have "\<forall>c\<in>set s. c \<noteq> CHR ''_''"
    using d f digit_facts(2) by (auto simp: s_def)
  then have filter: "filter (\<lambda>c. c \<noteq> CHR ''_'') s = s"
    by (simp add: filter_id_conv)
  have nosign: "hd s \<noteq> CHR ''-''" "hd s \<noteq> CHR ''+''"
    using hd digit_facts(3,4) [of "hd ds"] by auto
  have tw: "takeWhile is_digit s = ds"
    using d by (simp add: s_def takeWhile_append2 is_digit_def)
  have dw: "dropWhile is_digit s = ''.'' @ fs"
    using d by (simp add: s_def dropWhile_append2 is_digit_def)
  have tw2: "takeWhile is_digit fs = fs" and dw2: "dropWhile is_digit fs = []"
    using f by (simp_all add: takeWhile_eq_all_conv)
  have "parse_number False s = Some (Finite (Decimal False (digits_val (ds @ fs)) (- int (length fs))))"
    using assms(1) by (simp add: parse_number_def Let_def tw dw tw2 dw2)
  then have "Decimal_of_str s
           = Inr (Finite (Decimal False (digits_val (ds @ fs)) (- int (length fs))))"
    using nosign by (simp add: Decimal_of_str_def Let_def strip filter)
  then show ?thesis
    by (simp only: s_def)
qed

text \<open>A text that is read contains no character outside \<open>decimal_char\<close>.\<close>

lemma is_digit_lower: "is_digit (lower c) \<Longrightarrow> is_digit c"
  by (auto simp: is_digit_def lower_def Let_def split: if_splits)

lemma parse_exp_chars:
  assumes "parse_exp s = Some x" "c \<in> set s"
  shows "decimal_char c"
proof -
  define ds where "ds = (if s \<noteq> [] \<and> (hd s = CHR ''-'' \<or> hd s = CHR ''+'') then tl s else s)"
  have "list_all is_digit ds"
    using assms(1) by (simp add: parse_exp_def Let_def ds_def split: if_splits)
  moreover have "c \<in> set ds \<or> c = CHR ''-'' \<or> c = CHR ''+''"
    using assms(2) by (cases s) (auto simp: ds_def split: if_splits)
  ultimately show ?thesis
    by (auto simp: decimal_char_def list_all_iff)
qed

lemma parse_number_chars:
  assumes "parse_number sign s = Some d" "c \<in> set s"
  shows "decimal_char c"
proof -
  define r1 where "r1 = dropWhile is_digit s"
  define has_frac where "has_frac = (r1 \<noteq> [] \<and> hd r1 = CHR ''.'')"
  define r2 where "r2 = (if has_frac then dropWhile is_digit (tl r1) else r1)"
  have s: "s = takeWhile is_digit s @ r1"
    by (simp add: r1_def)
  have r1: "r1 = (if has_frac then ''.'' @ takeWhile is_digit (tl r1) @ r2 else r2)"
    by (cases r1) (auto simp: has_frac_def r2_def)
  have r2: "r2 = [] \<or> (lower (hd r2) = CHR ''e'' \<and> (\<exists>x. parse_exp (tl r2) = Some x))"
    using assms(1)
    by (auto simp: parse_number_def Let_def r1_def has_frac_def r2_def
        split: if_splits option.splits)
  have in_r2: "decimal_char c" if "c \<in> set r2"
  proof -
    from that have "r2 \<noteq> []"
      by auto
    with r2 obtain x where e: "lower (hd r2) = CHR ''e''" and x: "parse_exp (tl r2) = Some x"
      by auto
    have "c = hd r2 \<or> c \<in> set (tl r2)"
      using that by (cases r2) auto
    then show ?thesis
      using e parse_exp_chars [OF x] by (auto simp: decimal_char_def)
  qed
  have in_r1: "decimal_char c" if "c \<in> set r1"
  proof (cases has_frac)
    case True
    with that r1 have "c = CHR ''.'' \<or> c \<in> set (takeWhile is_digit (tl r1)) \<or> c \<in> set r2"
      by (metis Un_iff append_Cons append_Nil set_ConsD set_append)
    then show ?thesis
      using in_r2 by (auto simp: decimal_char_def dest: set_takeWhileD)
  next
    case False
    with that r1 in_r2 show ?thesis
      by simp
  qed
  from assms(2) s have "c \<in> set (takeWhile is_digit s) \<or> c \<in> set r1"
    by (metis Un_iff set_append)
  then show ?thesis
    using in_r1 by (auto simp: decimal_char_def dest: set_takeWhileD)
qed

lemma parse_special_chars:
  assumes "parse_special sign s = Some d" "c \<in> set s"
  shows "decimal_char c"
proof -
  define l where "l = map lower s"
  have lc: "lower c \<in> set l"
    using assms(2) by (simp add: l_def)
  have "l = ''inf'' \<or> l = ''infinity''
        \<or> (take 3 l = ''nan'' \<and> list_all is_digit (drop 3 l))
        \<or> (take 4 l = ''snan'' \<and> list_all is_digit (drop 4 l))"
    using assms(1) by (auto simp: parse_special_def Let_def l_def split: if_splits)
  moreover have split: "lower c \<in> set (take n l) \<or> lower c \<in> set (drop n l)" for n
    using lc by (metis Un_iff append_take_drop_id set_append)
  ultimately have "lower c \<in> set ''einftysa'' \<or> is_digit (lower c)"
    using lc split [of 3] split [of 4] by (elim disjE conjE) (auto simp: list_all_iff)
  then show ?thesis
    using is_digit_lower by (auto simp: decimal_char_def)
qed

lemma Decimal_of_str_chars:
  assumes "c \<in> set v" "\<not> is_space c" "\<not> decimal_char c"
  shows "Decimal_of_str v = Inl InvalidOperation"
proof -
  define t where "t = filter (\<lambda>c. c \<noteq> CHR ''_'') (strip v)"
  define body where "body = (if t \<noteq> [] \<and> (hd t = CHR ''-'' \<or> hd t = CHR ''+'') then tl t else t)"
  have c: "c \<noteq> CHR ''_''" "c \<noteq> CHR ''-''" "c \<noteq> CHR ''+''"
    using assms(3) by (auto simp: decimal_char_def)
  have "c \<in> set t"
    using assms(1,2) c(1) by (simp add: t_def set_strip_keep)
  then have "c \<in> set body"
    using c(2,3) by (cases t) (auto simp: body_def)
  then have "parse_number sign body = None" "parse_special sign body = None" for sign
    using assms(3) parse_number_chars [of sign body _ c] parse_special_chars [of sign body _ c]
    by (cases "parse_number sign body"; cases "parse_special sign body"; simp)+
  then show ?thesis
    by (simp add: Decimal_of_str_def Let_def t_def [symmetric] body_def [symmetric])
qed

lemma strip_plain:
  assumes "ds \<noteq> []" "list_all is_digit ds" "list_all is_digit fs"
  shows "strip (ds @ ''.'' @ fs) = ds @ ''.'' @ fs"
proof -
  have d: "is_digit (hd ds)"
    using assms(1,2) by (cases ds) simp_all
  have f: "\<forall>c\<in>set fs. is_digit c"
    using assms(3) by (simp add: list_all_iff)
  have "\<not> is_space (last (ds @ ''.'' @ fs))"
    using f digit_facts(1) by (cases "fs = []") (simp_all add: is_space_def)
  moreover have "\<not> is_space (hd (ds @ ''.'' @ fs))"
    using assms(1) d digit_facts(1) by simp
  ultimately show ?thesis
    by (intro strip_id) simp_all
qed

lemma to_decimal_separator:
  "to_decimal (PyStr (a @ '','' @ b)) = to_decimal (PyStr (a @ ''.'' @ b))"
  by (simp add: to_decimal_def replace_char_def)

lemma to_decimal_trim:
  assumes "list_all is_space l" "list_all is_space r"
  shows "to_decimal (PyStr (l @ t @ r)) = to_decimal (PyStr t)"
proof -
  have "replace_char (CHR '','') (CHR ''.'') (l @ t @ r)
          = l @ replace_char (CHR '','') (CHR ''.'') t @ r"
    using assms by (simp add: replace_char_append replace_char_spaces)
  then show ?thesis
    using assms by (simp add: to_decimal_def strip_spaces_around)
qed

lemma to_decimal_plain:
  assumes "ds \<noteq> []" "list_all is_digit ds" "list_all is_digit fs"
    and "sep = CHR '','' \<or> sep = CHR ''.''"
  shows "to_decimal (PyStr (ds @ [sep] @ fs))
           = Inr (Finite (Decimal False (digits_val (ds @ fs)) (- int (length fs))))"
proof -
  have "replace_char (CHR '','') (CHR ''.'') [sep] = ''.''"
    using assms(4) by (auto simp: replace_char_def)
  then have "replace_char (CHR '','') (CHR ''.'') (ds @ [sep] @ fs) = ds @ ''.'' @ fs"
    by (simp only: replace_char_append replace_char_digits [OF assms(2)]
        replace_char_digits [OF assms(3)])
  then have "to_decimal (PyStr (ds @ [sep] @ fs)) = Decimal_of_str (ds @ ''.'' @ fs)"
    using strip_plain [OF assms(1-3)] by (simp add: to_decimal_def)
  then show ?thesis
    using Decimal_of_str_plain [OF assms(1-3)] by simp
qed

lemma to_decimal_chars:
  assumes "c \<in> set t" "\<not> is_space c" "\<not> decimal_char c"
  shows "to_decimal (PyStr t) = Inl InvalidOperation"
proof -
  define s where "s = strip (replace_char (CHR '','') (CHR ''.'') t)"
  have "c \<noteq> CHR '',''"
    using assms(3) by (auto simp: decimal_char_def)
  then have "c \<in> set (replace_char (CHR '','') (CHR ''.'') t)"
    using assms(1) by (auto simp: replace_char_def)
  then have c: "c \<in> set s"
    using assms(2) by (simp add: s_def set_strip_keep)
  then have "s \<noteq> []"
    by auto
  then show ?thesis
    using Decimal_of_str_chars [OF c assms(2,3)] by (simp add: to_decimal_def s_def [symmetric])
qed

text \<open>
  C9, as the code reads amounts: a comma or a point as the separator gives the same
  result; white space around the text is dropped; the empty text is zero; digits, a
  separator and digits give that number exactly; and a text with a character that is
  neither white space nor one of the characters of \<open>decimal_char\<close> raises
  InvalidOperation.
\<close>

theorem to_decimal_text:
  "to_decimal (PyStr (a @ '','' @ b)) = to_decimal (PyStr (a @ ''.'' @ b))
   \<and> (list_all is_space l \<and> list_all is_space r \<longrightarrow>
        to_decimal (PyStr (l @ t @ r)) = to_decimal (PyStr t))
   \<and> to_decimal (PyStr []) = Inr (Finite (Decimal False 0 0))
   \<and> (ds \<noteq> [] \<and> list_all is_digit ds \<and> list_all is_digit fs
        \<and> (sep = CHR '','' \<or> sep = CHR ''.'') \<longrightarrow>
        to_decimal (PyStr (ds @ [sep] @ fs))
          = Inr (Finite (Decimal False (digits_val (ds @ fs)) (- int (length fs)))))
   \<and> (c \<in> set u \<and> \<not> is_space c \<and> \<not> decimal_char c \<longrightarrow>
        to_decimal (PyStr u) = Inl InvalidOperation)"
proof (intro conjI impI)
  show "to_decimal (PyStr (a @ '','' @ b)) = to_decimal (PyStr (a @ ''.'' @ b))"
    by (rule to_decimal_separator)
  show "to_decimal (PyStr (l @ t @ r)) = to_decimal (PyStr t)"
    if "list_all is_space l \<and> list_all is_space r"
    using that by (simp add: to_decimal_trim)
  show "to_decimal (PyStr []) = Inr (Finite (Decimal False 0 0))"
    by (simp add: to_decimal_def strip_def replace_char_def)
  show "to_decimal (PyStr (ds @ [sep] @ fs))
          = Inr (Finite (Decimal False (digits_val (ds @ fs)) (- int (length fs))))"
    if "ds \<noteq> [] \<and> list_all is_digit ds \<and> list_all is_digit fs
        \<and> (sep = CHR '','' \<or> sep = CHR ''.'')"
    using that by (intro to_decimal_plain) simp_all
  show "to_decimal (PyStr u) = Inl InvalidOperation"
    if "c \<in> set u \<and> \<not> is_space c \<and> \<not> decimal_char c"
    using that by (intro to_decimal_chars [of c]) simp_all
qed

theorem to_decimal_text_witness:
  "list_all is_space '' '' \<and> list_all is_space [CHR 0x09]
   \<and> to_decimal (PyStr ('' '' @ ''1,5'' @ [CHR 0x09])) = to_decimal (PyStr ''1,5'')
   \<and> ''12'' \<noteq> [] \<and> list_all is_digit ''12'' \<and> list_all is_digit ''5''
   \<and> to_decimal (PyStr (''12'' @ [CHR '',''] @ ''5''))
       = Inr (Finite (Decimal False (digits_val (''12'' @ ''5'')) (- int (length ''5''))))
   \<and> digits_val (''12'' @ ''5'') = 125
   \<and> CHR ''$'' \<in> set ''R$ 5'' \<and> \<not> is_space (CHR ''$'') \<and> \<not> decimal_char (CHR ''$'')
   \<and> to_decimal (PyStr ''R$ 5'') = Inl InvalidOperation"
proof -
  have sp: "list_all is_space '' '' \<and> list_all is_space [CHR 0x09]"
    by (simp add: is_space_def)
  have dg: "''12'' \<noteq> [] \<and> list_all is_digit ''12'' \<and> list_all is_digit ''5''
              \<and> (CHR '','' = CHR '','' \<or> CHR '','' = CHR ''.'')"
    by (simp add: is_digit_def)
  have "lower (CHR ''$'') = CHR ''$''"
    by (simp add: lower_def)
  then have ch: "CHR ''$'' \<in> set ''R$ 5'' \<and> \<not> is_space (CHR ''$'') \<and> \<not> decimal_char (CHR ''$'')"
    by (simp add: is_space_def decimal_char_def is_digit_def)
  have val: "digits_val (''12'' @ ''5'') = 125"
    by (simp add: digits_val_def)
  note t = to_decimal_text [of "''1''" "''5''" "'' ''" "[CHR 0x09]" "''1,5''" "''12''" "''5''"
      "CHR '',''" "CHR ''$''" "''R$ 5''"]
  have t2: "to_decimal (PyStr ('' '' @ ''1,5'' @ [CHR 0x09])) = to_decimal (PyStr ''1,5'')"
    using t sp by blast
  have t4: "to_decimal (PyStr (''12'' @ [CHR '',''] @ ''5''))
       = Inr (Finite (Decimal False (digits_val (''12'' @ ''5'')) (- int (length ''5''))))"
    using t dg by blast
  have t5: "to_decimal (PyStr ''R$ 5'') = Inl InvalidOperation"
    using t ch by blast
  show ?thesis
    using sp t2 dg t4 val ch t5 by blast
qed

text \<open>
  C9 as the specification states it fails: the text \<open>NaN\<close> has no numeric character at
  all, and \<open>to_decimal\<close> does not fail on it but returns the Decimal NaN.
\<close>

theorem to_decimal_accepts_NaN:
  "to_decimal (PyStr ''NaN'') = Inr (NaN False False 0)"
  by code_simp

end
